theory Spec2Isabelle
  imports Complex_Main "HOL-Library.Multiset" "HOL-Library.Log_Nat"
begin

section \<open>Anchor labelling of the Faster-RCNN object localization data set\<close>

text \<open>
  A shallow embedding of \<^verbatim>\<open>examples/faster-rcnn/objectlocalization.py\<close>.

  Conventions of the embedding.
  \<^item> A numpy array of shape \<open>(n,)\<close> is a list, an array of shape \<open>(n, 4)\<close> of boxes is a
    list of \<open>box\<close> records, a matrix of shape \<open>(R, G)\<close> is a list of \<open>R\<close> rows; where the
    code reads the number of columns of a matrix that may have no row, the number is
    passed along.
  \<^item> A finite floating point number is the real number it stands for. The \<^verbatim>\<open>float64\<close>
    operations of \<^verbatim>\<open>calculate_scale_shape\<close> and \<^verbatim>\<open>_sample_anchors\<close> and the
    \<^verbatim>\<open>float32\<close> array of \<^verbatim>\<open>_unmap\<close> round to the nearest number of the format
    (\<open>fl64\<close>, \<open>fl32\<close>). The overlaps and the regression targets of \<^verbatim>\<open>add_anchors\<close>
    are computed over the reals, without rounding. Infinities and \<open>nan\<close> are not
    modelled. Python integers are \<open>int\<close>, array indices produced by \<^verbatim>\<open>np.where\<close>
    are \<open>nat\<close>.
  \<^item> Every exception the code can raise is a value \<open>Inl e\<close> of the result type.
\<close>

subsection \<open>Errors\<close>

datatype error = ZeroDivisionError | ValueError | AssertionError | IndexError | OverflowError

text \<open>Running a sequence of fallible computations: the first exception ends the run.\<close>

fun collect :: "(error + 'a) list \<Rightarrow> error + 'a list" where
  "collect [] = Inr []"
| "collect (x # xs) =
     (case x of
        Inl e \<Rightarrow> Inl e
      | Inr v \<Rightarrow> (case collect xs of Inl e \<Rightarrow> Inl e | Inr vs \<Rightarrow> Inr (v # vs)))"

subsection \<open>Boxes and their overlap\<close>

text \<open>A row \<^verbatim>\<open>[x_min, y_min, x_max, y_max]\<close> of a box array
  (\<^verbatim>\<open>BB_XMIN_IDX = 0\<close>, ..., \<^verbatim>\<open>BB_YMAX_IDX = 3\<close>).\<close>

record box =
  bb_xmin :: real
  bb_ymin :: real
  bb_xmax :: real
  bb_ymax :: real

definition valid_box :: "box \<Rightarrow> bool" where
  "valid_box b \<longleftrightarrow> bb_xmin b \<le> bb_xmax b \<and> bb_ymin b \<le> bb_ymax b"

text \<open>
  Coordinates are pixel inclusive: a box covers the pixels \<open>x_min .. x_max\<close>, that is the
  extent \<open>[x_min, x_max + 1) \<times> [y_min, y_max + 1)\<close> of the plane, which is what the
  \<open>+ 1\<close> of every width and height of the code measures.
\<close>

definition extent :: "box \<Rightarrow> (real \<times> real) set" where
  "extent b = {(x, y). bb_xmin b \<le> x \<and> x < bb_xmax b + 1 \<and> bb_ymin b \<le> y \<and> y < bb_ymax b + 1}"

definition closed_rect :: "box \<Rightarrow> (real \<times> real) set" where
  "closed_rect b = {(x, y). bb_xmin b \<le> x \<and> x \<le> bb_xmax b \<and> bb_ymin b \<le> y \<and> y \<le> bb_ymax b}"

definition on_grid :: "box \<Rightarrow> bool" where
  "on_grid b \<longleftrightarrow> bb_xmin b \<in> \<int> \<and> bb_ymin b \<in> \<int> \<and> bb_xmax b \<in> \<int> \<and> bb_ymax b \<in> \<int>"

definition bb_disjoint :: "box \<Rightarrow> box \<Rightarrow> bool" where
  "bb_disjoint a b \<longleftrightarrow>
     bb_xmax a + 1 \<le> bb_xmin b \<or> bb_xmax b + 1 \<le> bb_xmin a \<or>
     bb_ymax a + 1 \<le> bb_ymin b \<or> bb_ymax b + 1 \<le> bb_ymin a"

text \<open>
  The body of the two loops of \<^verbatim>\<open>calculate_bb_overlap\<close>: the value of
  \<^verbatim>\<open>overlaps[r, g]\<close> for the region proposal \<open>rp\<close> and the ground truth box \<open>gt\<close>.
  The entry keeps the \<open>0\<close> of \<^verbatim>\<open>np.zeros\<close> unless both \<open>iw\<close> and \<open>ih\<close> are
  positive. \<open>iw\<close>, \<open>ih\<close> and \<open>ua\<close> are Python floats, so a division by \<open>ua = 0\<close> raises.
\<close>

definition bb_overlap :: "box \<Rightarrow> box \<Rightarrow> error + real" where
  "bb_overlap rp gt =
     (let gt_box_area = (bb_xmax gt - bb_xmin gt + 1) * (bb_ymax gt - bb_ymin gt + 1);
          iw = min (bb_xmax rp) (bb_xmax gt) - max (bb_xmin rp) (bb_xmin gt) + 1
      in if iw > 0 then
           (let ih = min (bb_ymax rp) (bb_ymax gt) - max (bb_ymin rp) (bb_ymin gt) + 1
            in if ih > 0 then
                 (let ua = (bb_xmax rp - bb_xmin rp + 1) * (bb_ymax rp - bb_ymin rp + 1)
                           + gt_box_area - iw * ih
                  in if ua = 0 then Inl ZeroDivisionError else Inr (iw * ih / ua))
               else Inr 0)
         else Inr 0)"

text \<open>
  \<^verbatim>\<open>calculate_bb_overlap(rp, gt)\<close>: the matrix of shape \<open>(R, G)\<close>, one row for each
  region proposal. The code fills it column by column; the only exception is the
  division by zero, so the order in which the entries are computed does not show in the
  result.
\<close>

definition calculate_bb_overlap :: "box list \<Rightarrow> box list \<Rightarrow> error + real list list" where
  "calculate_bb_overlap rp gt = collect (map (\<lambda>r. collect (map (\<lambda>g. bb_overlap r g) gt)) rp)"

subsection \<open>numpy operations on arrays\<close>

text \<open>\<^verbatim>\<open>np.where(mask)[0]\<close> for a mask of shape \<open>(n,)\<close>: the indices of the
  entries that satisfy the condition, in ascending order.\<close>

definition np_where :: "('a \<Rightarrow> bool) \<Rightarrow> 'a list \<Rightarrow> nat list" where
  "np_where P xs = filter (\<lambda>i. P (xs ! i)) [0..<length xs]"

text \<open>\<^verbatim>\<open>np.where(mask)[0]\<close> for a mask of shape \<open>(R, G)\<close>: the row index of every
  true entry, row by row, so a row is listed once for each of its true entries.\<close>

definition np_where_rows :: "bool list list \<Rightarrow> nat list" where
  "np_where_rows msk =
     concat (map (\<lambda>i. map (\<lambda>_. i) (filter (\<lambda>b. b) (msk ! i))) [0..<length msk])"

text \<open>\<^verbatim>\<open>xs[mask] = v\<close> for a boolean mask as long as \<open>xs\<close>, and \<^verbatim>\<open>xs[idx] = v\<close>
  for indices within \<open>xs\<close>.\<close>

definition set_mask :: "bool list \<Rightarrow> 'a \<Rightarrow> 'a list \<Rightarrow> 'a list" where
  "set_mask msk v xs = map (\<lambda>(x, b). if b then v else x) (zip xs msk)"

definition set_idx :: "nat list \<Rightarrow> 'a \<Rightarrow> 'a list \<Rightarrow> 'a list" where
  "set_idx idx v xs = fold (\<lambda>i ys. ys[i := v]) idx xs"

text \<open>The maximum of an array: numpy raises \<^verbatim>\<open>ValueError\<close> for a reduction over no
  element. \<open>argmax\<close> is the first index at which the maximum stands.\<close>

fun amax :: "real list \<Rightarrow> error + real" where
  "amax [] = Inl ValueError"
| "amax (x # xs) = Inr (fold max xs x)"

definition argmax :: "real list \<Rightarrow> error + nat" where
  "argmax xs =
     (case amax xs of
        Inl e \<Rightarrow> Inl e
      | Inr m \<Rightarrow> Inr (length (takeWhile (\<lambda>x. x \<noteq> m) xs)))"

text \<open>
  The reductions of a matrix of shape \<open>(R, G)\<close> given by its rows. A reduction along an
  axis of size \<open>0\<close> raises, whatever the size of the other axis:
  \<^verbatim>\<open>m.max(axis=1)\<close> and \<^verbatim>\<open>m.argmax(axis=1)\<close> raise when \<open>G = 0\<close>,
  \<^verbatim>\<open>m.max(axis=0)\<close> raises when \<open>R = 0\<close>.
\<close>

definition max_axis1 :: "nat \<Rightarrow> real list list \<Rightarrow> error + real list" where
  "max_axis1 G m = (if G = 0 then Inl ValueError else collect (map amax m))"

definition argmax_axis1 :: "nat \<Rightarrow> real list list \<Rightarrow> error + nat list" where
  "argmax_axis1 G m = (if G = 0 then Inl ValueError else collect (map argmax m))"

definition max_axis0 :: "nat \<Rightarrow> real list list \<Rightarrow> error + real list" where
  "max_axis0 G m =
     (if m = [] then Inl ValueError
      else collect (map (\<lambda>g. amax (map (\<lambda>row. row ! g) m)) [0..<G]))"

text \<open>\<^verbatim>\<open>xs[idx]\<close> and \<^verbatim>\<open>xs[idx, :]\<close> for an array of indices: the entries (rows) at
  the indices, \<^verbatim>\<open>IndexError\<close> when an index is out of bounds.\<close>

definition gather :: "'a list \<Rightarrow> nat list \<Rightarrow> error + 'a list" where
  "gather xs idx =
     (if \<exists>i \<in> set idx. length xs \<le> i then Inl IndexError else Inr (map (\<lambda>i. xs ! i) idx))"

text \<open>
  \<^verbatim>\<open>ret[inds] = data\<close> and \<^verbatim>\<open>ret[inds, :] = data\<close>: \<open>data\<close> has as many entries
  (rows) as there are indices, or a single one, which is then written at every index;
  any other length is a shape mismatch. The writes happen in the order of the indices.
\<close>

definition assign_at :: "'a list \<Rightarrow> nat list \<Rightarrow> 'a list \<Rightarrow> error + 'a list" where
  "assign_at ret inds data =
     (if length data \<noteq> length inds \<and> length data \<noteq> 1 then Inl ValueError
      else if \<exists>i \<in> set inds. length ret \<le> i then Inl IndexError
      else Inr (fold (\<lambda>(i, v) r. r[i := v])
                  (zip inds (if length data = length inds then data
                             else replicate (length inds) (hd data)))
                  ret))"

text \<open>\<^verbatim>\<open>np.round\<close> rounds a half to the even neighbour.\<close>

definition np_round :: "real \<Rightarrow> int" where
  "np_round x =
     (let f = \<lfloor>x\<rfloor>; d = x - of_int f
      in if d < 1 / 2 then f else if 1 / 2 < d then f + 1 else if even f then f else f + 1)"

text \<open>Python's \<^verbatim>\<open>int(x)\<close> of a float truncates towards zero.\<close>

definition py_int :: "real \<Rightarrow> int" where
  "py_int x = (if 0 \<le> x then \<lfloor>x\<rfloor> else \<lceil>x\<rceil>)"

text \<open>The slice \<^verbatim>\<open>xs[:k]\<close>: a negative \<open>k\<close> counts from the end.\<close>

definition py_take :: "int \<Rightarrow> 'a list \<Rightarrow> 'a list" where
  "py_take k xs = (if 0 \<le> k then take (nat k) xs else take (nat (int (length xs) + k)) xs)"

subsection \<open>Floating point numbers\<close>

text \<open>
  The binary exponent \<open>e\<close> of a positive number \<open>y\<close>, with \<open>2 ^ e \<le> y < 2 ^ (e + 1)\<close>, from the
  number of bits of an integer.
\<close>

definition expo :: "real \<Rightarrow> int" where
  "expo y = (if 1 \<le> y then bitlen \<lfloor>y\<rfloor> - 1 else - bitlen (\<lceil>1 / y\<rceil> - 1))"

text \<open>
  Rounding to the nearest number of a binary format with \<open>p\<close> bits of precision and least
  exponent \<open>emin\<close>, a tie going to the even mantissa: \<open>x\<close> is rounded to a whole multiple
  of the unit \<open>u\<close> of its binade (of the least binade for a subnormal \<open>x\<close>). The formats
  are \<^verbatim>\<open>float64\<close> (53 bits, least exponent \<open>-1022\<close>) and \<^verbatim>\<open>float32\<close> (24 bits,
  least exponent \<open>-126\<close>). A number of magnitude \<open>max64\<close> (\<open>max32\<close>) or more has no finite
  rounding: the machine gives an infinity, which the model does not have.
\<close>

definition round_float :: "nat \<Rightarrow> int \<Rightarrow> real \<Rightarrow> real" where
  "round_float p emin x =
     (if x = 0 then 0
      else (let e = max (expo \<bar>x\<bar>) emin; u = 2 powi (e - int p + 1)
            in real_of_int (np_round (x / u)) * u))"

definition fl64 :: "real \<Rightarrow> real" where
  "fl64 = round_float 53 (- 1022)"

definition fl32 :: "real \<Rightarrow> real" where
  "fl32 = round_float 24 (- 126)"

definition max64 :: real where
  "max64 = 2 ^ 1024 - 2 ^ 970"

definition max32 :: real where
  "max32 = 2 ^ 128 - 2 ^ 103"

text \<open>Python's \<^verbatim>\<open>float(n)\<close> of an integer, also where an integer meets a float in a
  product: the nearest \<^verbatim>\<open>float64\<close>, or \<^verbatim>\<open>OverflowError\<close>.\<close>

definition py_float :: "int \<Rightarrow> error + real" where
  "py_float n = (if max64 \<le> \<bar>real_of_int n\<bar> then Inl OverflowError else Inr (fl64 (real_of_int n)))"

text \<open>
  An entry of \<^verbatim>\<open>np.array(size, np.int32)\<close>: a Python integer that fits a C long of 64
  bits is cut to its low 32 bits, read as a signed number; a larger one raises.
\<close>

definition np_int32 :: "int \<Rightarrow> error + int" where
  "np_int32 n =
     (if n < - (2 ^ 63) \<or> 2 ^ 63 \<le> n then Inl OverflowError
      else Inr ((n + 2 ^ 31) mod 2 ^ 32 - 2 ^ 31))"

subsection \<open>The data set object and its image records\<close>

text \<open>The attributes of \<^verbatim>\<open>self\<close> that the functions below read; \<open>self_total_anchors\<close>
  is \<^verbatim>\<open>self._total_anchors\<close>.\<close>

record config =
  MAX_SIZE :: int
  MIN_SIZE :: int
  NEGATIVE_OVERLAP :: real
  POSITIVE_OVERLAP :: real
  FG_FRACTION :: real
  self_total_anchors :: nat

text \<open>The class attributes of \<^verbatim>\<open>ObjectLocalization\<close> (and of \<^verbatim>\<open>PASCAL\<close>).\<close>

definition ObjectLocalization :: "nat \<Rightarrow> config" where
  "ObjectLocalization n =
     \<lparr>MAX_SIZE = 1000, MIN_SIZE = 600, NEGATIVE_OVERLAP = 3 / 10, POSITIVE_OVERLAP = 7 / 10,
      FG_FRACTION = 1 / 2, self_total_anchors = n\<rparr>"

text \<open>
  An entry of \<^verbatim>\<open>roi_db\<close> as \<^verbatim>\<open>load_annotation\<close> builds it (the keys
  \<^verbatim>\<open>img_id\<close> and \<^verbatim>\<open>img_path\<close>, which no function below reads, are left out), and
  the entry with the keys that \<^verbatim>\<open>add_anchors\<close> adds.
\<close>

record roi =
  gt_bb :: "box list"
  gt_classes :: "int list"
  flipped :: bool
  img_shape :: "int \<times> int"

record anchored =
  a_gt_bb :: "box list"
  a_gt_classes :: "int list"
  a_flipped :: bool
  a_img_shape :: "int \<times> int"
  labels :: "real list"
  bbox_targets :: "real list list"
  max_classes :: "int list"
  total_anchors :: int
  idx_inside :: "nat list"
  im_width :: int
  im_height :: int

subsection \<open>Scale and shape of the resized image\<close>

text \<open>
  \<^verbatim>\<open>calculate_scale_shape(self, size)\<close> for the \<^verbatim>\<open>size\<close> \<open>sz = (w, h)\<close>. The two
  divisions are divisions of Python floats; the products are \<^verbatim>\<open>float64\<close> products of a
  float and an \<^verbatim>\<open>int32\<close>. For \<^verbatim>\<open>MIN_SIZE\<close> and \<^verbatim>\<open>MAX_SIZE\<close> of magnitude up to
  \<open>2 ^ 31\<close> every product is finite and below \<open>2 ^ 63\<close>; beyond that the infinities of
  \<^verbatim>\<open>float64\<close> and the conversion of a float that does not fit an integer of 64 bits are
  not modelled.
\<close>

definition calculate_scale_shape :: "config \<Rightarrow> int \<times> int \<Rightarrow> error + real \<times> (int \<times> int)" where
  "calculate_scale_shape self sz =
     (case np_int32 (fst sz) of
        Inl e \<Rightarrow> Inl e
      | Inr w \<Rightarrow>
          (case np_int32 (snd sz) of
             Inl e \<Rightarrow> Inl e
           | Inr h \<Rightarrow>
               (let im_size_min = min w h;
                    im_size_max = max w h
                in case py_float (MIN_SIZE self) of
                     Inl e \<Rightarrow> Inl e
                   | Inr min_size \<Rightarrow>
                       if im_size_min = 0 then Inl ZeroDivisionError
                       else
                         (let im_scale = fl64 (min_size / real_of_int im_size_min)
                          in if np_round (fl64 (im_scale * real_of_int im_size_max)) > MAX_SIZE self
                             then
                               (case py_float (MAX_SIZE self) of
                                  Inl e \<Rightarrow> Inl e
                                | Inr max_size \<Rightarrow>
                                    if im_size_max = 0 then Inl ZeroDivisionError
                                    else
                                      (let im_scale = fl64 (max_size / real_of_int im_size_max)
                                       in Inr (im_scale,
                                               (np_round (fl64 (real_of_int w * im_scale)),
                                                np_round (fl64 (real_of_int h * im_scale))))))
                             else Inr (im_scale,
                                       (np_round (fl64 (real_of_int w * im_scale)),
                                        np_round (fl64 (real_of_int h * im_scale))))))))"

subsection \<open>Anchors inside the image, regression targets\<close>

definition inside_im_bounds :: "box list \<Rightarrow> int \<times> int \<Rightarrow> nat list" where
  "inside_im_bounds bx im_shape =
     np_where (\<lambda>b. bb_xmin b \<ge> 0 \<and> bb_ymin b \<ge> 0 \<and>
                    bb_xmax b < real_of_int (fst im_shape) \<and>
                    bb_ymax b < real_of_int (snd im_shape)) bx"

definition FRCN_EPS :: real where
  "FRCN_EPS = 1"

definition get_xywh :: "box \<Rightarrow> real \<times> real \<times> real \<times> real" where
  "get_xywh bb =
     (let w = bb_xmax bb - bb_xmin bb + FRCN_EPS;
          h = bb_ymax bb - bb_ymin bb + FRCN_EPS;
          x = bb_xmin bb + 0.5 * w;
          y = bb_ymin bb + 0.5 * h
      in (x, y, w, h))"

text \<open>
  \<^verbatim>\<open>_compute_targets(gt_bb, rp_bb)\<close>, row by row of the two arrays, which have the
  same number of rows where the function is called. numpy does not raise on a division by
  zero or on the logarithm of a number that is not positive (it stores \<open>inf\<close> or \<open>nan\<close>);
  the model's value in such a row is the one of HOL's total functions and has no meaning.
\<close>

definition compute_target :: "box \<Rightarrow> box \<Rightarrow> real list" where
  "compute_target gt rp =
     (case get_xywh rp of (x, y, w, h) \<Rightarrow>
        (case get_xywh gt of (x_gt, y_gt, w_gt, h_gt) \<Rightarrow>
           [(x_gt - x) / w, (y_gt - y) / h, ln (w_gt / w), ln (h_gt / h)]))"

definition compute_targets :: "box list \<Rightarrow> box list \<Rightarrow> real list list" where
  "compute_targets gt rp = map (\<lambda>(g, r). compute_target g r) (zip gt rp)"

definition scale_box :: "real \<Rightarrow> box \<Rightarrow> box" where
  "scale_box s b =
     \<lparr>bb_xmin = bb_xmin b * s, bb_ymin = bb_ymin b * s,
      bb_xmax = bb_xmax b * s, bb_ymax = bb_ymax b * s\<rparr>"

subsection \<open>Labelling the anchors\<close>

text \<open>
  The labels of \<^verbatim>\<open>add_anchors\<close> (\<^verbatim>\<open>labels = np.empty(...)\<close> to
  \<^verbatim>\<open>labels[fg_idx] = 1\<close>) from the overlap matrix of shape \<open>(R, G)\<close>: every label
  starts as \<open>-1\<close>; rows whose maximum is below \<^verbatim>\<open>NEGATIVE_OVERLAP\<close> become \<open>0\<close>; rows
  that hold the maximum of a column become \<open>1\<close>; rows whose maximum reaches
  \<^verbatim>\<open>POSITIVE_OVERLAP\<close> become \<open>1\<close>.
\<close>

definition anchor_labels :: "config \<Rightarrow> nat \<Rightarrow> real list list \<Rightarrow> error + real list" where
  "anchor_labels self G overlaps =
     (let labels0 = replicate (length overlaps) (- 1)
      in case max_axis1 G overlaps of
           Inl e \<Rightarrow> Inl e
         | Inr row_max \<Rightarrow>
             (let bg_idx = map (\<lambda>m. m < NEGATIVE_OVERLAP self) row_max;
                  labels1 = set_mask bg_idx 0 labels0
              in case max_axis0 G overlaps of
                   Inl e \<Rightarrow> Inl e
                 | Inr col_max \<Rightarrow>
                     (let gt_idx = np_where_rows
                                     (map (\<lambda>row. map (\<lambda>(v, m). v = m) (zip row col_max)) overlaps);
                          labels2 = set_idx gt_idx 1 labels1;
                          fg_idx = map (\<lambda>m. m \<ge> POSITIVE_OVERLAP self) row_max
                      in Inr (set_mask fg_idx 1 labels2))))"

text \<open>
  The body of the loop of \<^verbatim>\<open>add_anchors\<close> for one entry \<open>db\<close>, and the function
  itself. \<open>all_anchors\<close> is the result of \<^verbatim>\<open>generate_all_anchors\<close>, which is defined
  in another module.
\<close>

definition add_anchors_db :: "config \<Rightarrow> box list \<Rightarrow> roi \<Rightarrow> error + anchored" where
  "add_anchors_db self all_anchors db =
     (case calculate_scale_shape self (img_shape db) of
        Inl e \<Rightarrow> Inl e
      | Inr (im_scale, im_shape) \<Rightarrow>
          (let idx = inside_im_bounds all_anchors im_shape;
               anchors = map (\<lambda>i. all_anchors ! i) idx;
               gt = map (scale_box im_scale) (gt_bb db)
           in case calculate_bb_overlap anchors gt of
                Inl e \<Rightarrow> Inl e
              | Inr overlaps \<Rightarrow>
                  (case anchor_labels self (length gt) overlaps of
                     Inl e \<Rightarrow> Inl e
                   | Inr lbls \<Rightarrow>
                       (case argmax_axis1 (length gt) overlaps of
                          Inl e \<Rightarrow> Inl e
                        | Inr am \<Rightarrow>
                            Inr \<lparr>a_gt_bb = gt_bb db, a_gt_classes = gt_classes db,
                                 a_flipped = flipped db, a_img_shape = img_shape db,
                                 labels = lbls,
                                 bbox_targets =
                                   compute_targets
                                     (map (scale_box im_scale) (map (\<lambda>g. gt_bb db ! g) am))
                                     anchors,
                                 max_classes = map int am,
                                 total_anchors = int (self_total_anchors self),
                                 idx_inside = idx,
                                 im_width = fst im_shape,
                                 im_height = snd im_shape\<rparr>))))"

definition add_anchors :: "config \<Rightarrow> box list \<Rightarrow> roi list \<Rightarrow> error + anchored list" where
  "add_anchors self all_anchors roi_db =
     (if self_total_anchors self \<noteq> length all_anchors then Inl AssertionError
      else collect (map (add_anchors_db self all_anchors) roi_db))"

subsection \<open>Back to the full canvas\<close>

text \<open>An array of one dimension, or of two with the number of its columns.\<close>

datatype 'a ndarray = Arr1 "'a list" | Arr2 nat "'a list list"

text \<open>
  \<^verbatim>\<open>_unmap(data, count, inds, fill)\<close>; \<^verbatim>\<open>np.empty\<close> raises for a negative
  \<^verbatim>\<open>count\<close> (\<open>cnt\<close>). \<open>inds\<close> is an array of indices as \<^verbatim>\<open>np.where\<close> returns it.
  The result is an array of \<^verbatim>\<open>float32\<close>: the fill value and every entry of \<open>data\<close> are
  rounded to \<^verbatim>\<open>float32\<close> when they are stored (a value of magnitude \<open>max32\<close> or more
  is stored as an infinity, which the model does not have).
\<close>

definition unmap_array :: "real ndarray \<Rightarrow> int \<Rightarrow> nat list \<Rightarrow> real \<Rightarrow> error + real ndarray" where
  "unmap_array data cnt inds fill =
     (if cnt < 0 then Inl ValueError
      else
        (case data of
           Arr1 xs \<Rightarrow>
             (case assign_at (replicate (nat cnt) (fl32 fill)) inds (map fl32 xs) of
                Inl e \<Rightarrow> Inl e
              | Inr ret \<Rightarrow> Inr (Arr1 ret))
         | Arr2 c rows \<Rightarrow>
             (case assign_at (replicate (nat cnt) (replicate c (fl32 fill))) inds
                     (map (map fl32) rows) of
                Inl e \<Rightarrow> Inl e
              | Inr ret \<Rightarrow> Inr (Arr2 c ret))))"

text \<open>\<^verbatim>\<open>full[indices]\<close> and \<^verbatim>\<open>full[indices, :]\<close>.\<close>

definition gather_array :: "'a ndarray \<Rightarrow> nat list \<Rightarrow> error + 'a ndarray" where
  "gather_array full inds =
     (case full of
        Arr1 xs \<Rightarrow> (case gather xs inds of Inl e \<Rightarrow> Inl e | Inr ys \<Rightarrow> Inr (Arr1 ys))
      | Arr2 c rows \<Rightarrow> (case gather rows inds of Inl e \<Rightarrow> Inl e | Inr ys \<Rightarrow> Inr (Arr2 c ys)))"

text \<open>\<^verbatim>\<open>unmap(roi_db)\<close>, entry by entry. The entries of \<^verbatim>\<open>max_classes\<close> are
  \<^verbatim>\<open>float32\<close> numbers afterwards; they are whole numbers, and the record keeps them as
  integers.\<close>

definition unmap_db :: "anchored \<Rightarrow> error + anchored" where
  "unmap_db db =
     (case unmap_array (Arr1 (labels db)) (total_anchors db) (idx_inside db) (- 1) of
        Inr (Arr1 l) \<Rightarrow>
          (case unmap_array (Arr2 4 (bbox_targets db)) (total_anchors db) (idx_inside db) 0 of
             Inr (Arr2 c t) \<Rightarrow>
               (case unmap_array (Arr1 (map real_of_int (max_classes db))) (total_anchors db)
                       (idx_inside db) 0 of
                  Inr (Arr1 m) \<Rightarrow>
                    Inr (db\<lparr>labels := l, bbox_targets := t, max_classes := map floor m\<rparr>)
                | Inr (Arr2 c' m) \<Rightarrow> Inl ValueError
                | Inl e \<Rightarrow> Inl e)
           | Inr (Arr1 t) \<Rightarrow> Inl ValueError
           | Inl e \<Rightarrow> Inl e)
      | Inr (Arr2 c l) \<Rightarrow> Inl ValueError
      | Inl e \<Rightarrow> Inl e)"

definition unmap :: "anchored list \<Rightarrow> error + anchored list" where
  "unmap roi_db = collect (map unmap_db roi_db)"

subsection \<open>Sampling anchors\<close>

text \<open>
  \<^verbatim>\<open>int(fg_fractions * nrois)\<close>: the integer \<^verbatim>\<open>nrois\<close> becomes a float, the product
  is a \<^verbatim>\<open>float64\<close> product, and \<^verbatim>\<open>int\<close> of an infinite product raises.
  \<open>fg_fractions\<close> is a \<^verbatim>\<open>float64\<close> number.
\<close>

definition num_fg :: "real \<Rightarrow> int \<Rightarrow> error + int" where
  "num_fg fg_fractions nrois =
     (case py_float nrois of
        Inl e \<Rightarrow> Inl e
      | Inr n \<Rightarrow>
          if max64 \<le> \<bar>fg_fractions * n\<bar> then Inl OverflowError
          else Inr (py_int (fl64 (fg_fractions * n))))"

text \<open>
  \<^verbatim>\<open>_sample_anchors(self, db, nrois, fg_fractions, deterministic)\<close>. The random
  source \<^verbatim>\<open>self.be.rng\<close> belongs to the backend: \<open>choice s pool k\<close> stands for
  \<^verbatim>\<open>rng.choice(pool, size=size, replace=False)\<close> in the state \<open>s\<close> of the source, and
  returns the selection and the next state, or raises.
\<close>

definition sample_anchors ::
  "('s \<Rightarrow> nat list \<Rightarrow> int \<Rightarrow> error + nat list \<times> 's) \<Rightarrow> 's \<Rightarrow> anchored \<Rightarrow> int \<Rightarrow> real \<Rightarrow> bool
     \<Rightarrow> error + (real list \<times> real list list \<times> nat list) \<times> 's" where
  "sample_anchors choice s db nrois fg_fractions deterministic =
     (case num_fg fg_fractions nrois of
        Inl e \<Rightarrow> Inl e
      | Inr n_fg \<Rightarrow>
          (let fg_idx = np_where (\<lambda>l. l = 1) (labels db);
               bg_idx = np_where (\<lambda>l. l = 0) (labels db);
               num_fg_this_img = min n_fg (int (length fg_idx));
               num_bg_this_img = min (nrois - num_fg_this_img) (int (length bg_idx));
               drawn =
                 (if \<not> deterministic then
                    (case choice s fg_idx num_fg_this_img of
                       Inl e \<Rightarrow> Inl e
                     | Inr (fg, s1) \<Rightarrow>
                         (case choice s1 bg_idx num_bg_this_img of
                            Inl e \<Rightarrow> Inl e
                          | Inr (bg, s2) \<Rightarrow> Inr (fg, bg, s2)))
                  else Inr (py_take num_fg_this_img fg_idx, py_take num_bg_this_img bg_idx, s))
           in case drawn of
                Inl e \<Rightarrow> Inl e
              | Inr (fg, bg, s') \<Rightarrow>
                  (let idx = fg @ bg
                   in if int (length idx) \<noteq> nrois then Inl AssertionError
                      else
                        (case gather (labels db) idx of
                           Inl e \<Rightarrow> Inl e
                         | Inr ls \<Rightarrow>
                             (case gather (bbox_targets db) idx of
                                Inl e \<Rightarrow> Inl e
                              | Inr ts \<Rightarrow> Inr ((ls, ts, idx), s'))))))"

subsection \<open>Shuffling by aspect ratio\<close>

text \<open>\<^verbatim>\<open>np.reshape(inds, (-1, 2))\<close>: the rows of two entries; an array of odd size
  cannot be reshaped.\<close>

fun reshape2 :: "'a list \<Rightarrow> error + 'a list list" where
  "reshape2 [] = Inr []"
| "reshape2 [x] = Inl ValueError"
| "reshape2 (x # y # xs) =
     (case reshape2 xs of Inl e \<Rightarrow> Inl e | Inr rows \<Rightarrow> Inr ([x, y] # rows))"

text \<open>
  \<^verbatim>\<open>_shuffle_roidb(self)\<close> on \<^verbatim>\<open>self.roi_db\<close>; \<open>permutation s xs\<close> stands for
  \<^verbatim>\<open>self.be.rng.permutation(xs)\<close> in the state \<open>s\<close> of the random source.
\<close>

definition shuffle_roidb ::
  "('s \<Rightarrow> nat list \<Rightarrow> nat list \<times> 's) \<Rightarrow> 's \<Rightarrow> anchored list \<Rightarrow> error + nat list \<times> 's" where
  "shuffle_roidb permutation s roi_db =
     (let widths = map im_width roi_db;
          heights = map im_height roi_db;
          horz = map (\<lambda>(w, h). w \<ge> h) (zip widths heights);
          vert = map (\<lambda>b. \<not> b) horz;
          horz_inds = np_where (\<lambda>b. b) horz;
          vert_inds = np_where (\<lambda>b. b) vert
      in case permutation s horz_inds of (ph, s1) \<Rightarrow>
         (case permutation s1 vert_inds of (pv, s2) \<Rightarrow>
            (case reshape2 (ph @ pv) of
               Inl e \<Rightarrow> Inl e
             | Inr inds \<Rightarrow>
                 (case permutation s2 [0..<length inds] of (row_perm, s3) \<Rightarrow>
                    (case gather inds row_perm of
                       Inl e \<Rightarrow> Inl e
                     | Inr rows \<Rightarrow> Inr (concat rows, s3))))))"

subsection \<open>The scale and shape rule as the specification words it\<close>

text \<open>
  \<open>scale = min_side / min(w, h)\<close>; if \<open>round(scale * max(w, h)) > max_side\<close> then
  \<open>scale = max_side / max(w, h)\<close>; \<open>new_shape = round((w, h) * scale)\<close>, where the
  quotients and the products are the \<^verbatim>\<open>float64\<close> operations of the program and \<open>round\<close>
  is its rounding \<^verbatim>\<open>np.round\<close>.
\<close>

definition resolve :: "int \<Rightarrow> int \<Rightarrow> int \<times> int \<Rightarrow> real \<times> (int \<times> int)" where
  "resolve min_side max_side raw_shape =
     (case raw_shape of (w, h) \<Rightarrow>
        (let scale0 = fl64 (real_of_int min_side / real_of_int (min w h));
             scale = (if np_round (fl64 (scale0 * real_of_int (max w h))) > max_side
                      then fl64 (real_of_int max_side / real_of_int (max w h)) else scale0)
         in (scale, (np_round (fl64 (real_of_int w * scale)),
                     np_round (fl64 (real_of_int h * scale))))))"

subsection \<open>Example inputs\<close>

definition anchor16 :: box where
  "anchor16 = \<lparr>bb_xmin = 0, bb_ymin = 0, bb_xmax = 15, bb_ymax = 15\<rparr>"

definition box8 :: box where
  "box8 = \<lparr>bb_xmin = 0, bb_ymin = 0, bb_xmax = 7, bb_ymax = 7\<rparr>"

definition box_far :: box where
  "box_far = \<lparr>bb_xmin = 100, bb_ymin = 100, bb_xmax = 200, bb_ymax = 200\<rparr>"

text \<open>A random source that draws the first entries of the pool.\<close>

definition first_choice :: "unit \<Rightarrow> nat list \<Rightarrow> int \<Rightarrow> error + nat list \<times> unit" where
  "first_choice s pool k = (if k < 0 then Inl ValueError else Inr (take (nat k) pool, s))"

definition db_short :: anchored where
  "db_short =
     \<lparr>a_gt_bb = [], a_gt_classes = [], a_flipped = False, a_img_shape = (800, 600),
      labels = [1, 0, - 1], bbox_targets = [[0, 0, 0, 0], [0, 0, 0, 0], [0, 0, 0, 0]],
      max_classes = [0, 0, 0], total_anchors = 3, idx_inside = [0, 1, 2],
      im_width = 800, im_height = 600\<rparr>"

definition db_pools :: anchored where
  "db_pools =
     \<lparr>a_gt_bb = [], a_gt_classes = [], a_flipped = False, a_img_shape = (800, 600),
      labels = [0, 1, - 1, 1, 0, 0, 1],
      bbox_targets = [[0, 0, 0, 0], [1, 1, 1, 1], [2, 2, 2, 2], [3, 3, 3, 3], [4, 4, 4, 4],
                      [5, 5, 5, 5], [6, 6, 6, 6]],
      max_classes = [0, 0, 0, 0, 0, 0, 0], total_anchors = 7, idx_inside = [0, 1, 2, 3, 4, 5, 6],
      im_width = 800, im_height = 600\<rparr>"

definition db_empty :: roi where
  "db_empty = \<lparr>gt_bb = [], gt_classes = [], flipped = False, img_shape = (800, 600)\<rparr>"

definition db_one :: roi where
  "db_one = \<lparr>gt_bb = [anchor16], gt_classes = [5], flipped = False, img_shape = (800, 600)\<rparr>"

definition out_one :: anchored where
  "out_one =
     \<lparr>a_gt_bb = [anchor16], a_gt_classes = [5], a_flipped = False, a_img_shape = (800, 600),
      labels = [1], bbox_targets = [[0, 0, 0, 0]], max_classes = [0], total_anchors = 1,
      idx_inside = [0], im_width = 800, im_height = 600\<rparr>"

definition db_two :: roi where
  "db_two = \<lparr>gt_bb = [anchor16, box8], gt_classes = [5, 7], flipped = False,
             img_shape = (800, 600)\<rparr>"

definition out_two :: anchored where
  "out_two =
     \<lparr>a_gt_bb = [anchor16, box8], a_gt_classes = [5, 7], a_flipped = False,
      a_img_shape = (800, 600),
      labels = [1], bbox_targets = [[0, 0, 0, 0]], max_classes = [0], total_anchors = 1,
      idx_inside = [0], im_width = 800, im_height = 600\<rparr>"


subsection \<open>Predicates of the labelling\<close>

text \<open>An anchor holds the maximum of a column.\<close>

definition col_best :: "real list list \<Rightarrow> nat \<Rightarrow> nat \<Rightarrow> bool" where
  "col_best ov g i \<longleftrightarrow> (\<forall>j < length ov. ov ! j ! g \<le> ov ! i ! g)"

text \<open>Every ground truth box is the row-wise argmax of an anchor labelled foreground.\<close>

definition gt_argmax_of_foreground :: "anchored \<Rightarrow> bool" where
  "gt_argmax_of_foreground out \<longleftrightarrow>
     (\<forall>g < length (a_gt_bb out). \<exists>i < length (labels out).
        labels out ! i = 1 \<and> max_classes out ! i = int g)"

text \<open>A random source that reverses the array it is to permute.\<close>

definition rev_permutation :: "unit \<Rightarrow> nat list \<Rightarrow> nat list \<times> unit" where
  "rev_permutation s xs = (rev xs, s)"

section \<open>Properties\<close>

subsection \<open>Overlap of two boxes\<close>

lemma bb_overlap_commute: "bb_overlap a b = bb_overlap b a"
  by (simp add: bb_overlap_def Let_def min.commute max.commute add.commute mult.commute)

text \<open>\<open>bb_disjoint\<close> says that the extents of two valid boxes have no point in common.\<close>

lemma bb_disjoint_extent:
  assumes "valid_box a" and "valid_box b"
  shows "bb_disjoint a b \<longleftrightarrow> extent a \<inter> extent b = {}"
proof
  assume "bb_disjoint a b"
  then show "extent a \<inter> extent b = {}"
    by (auto simp: bb_disjoint_def extent_def)
next
  assume e: "extent a \<inter> extent b = {}"
  show "bb_disjoint a b"
  proof (rule ccontr)
    assume n: "\<not> bb_disjoint a b"
    let ?p = "(max (bb_xmin a) (bb_xmin b), max (bb_ymin a) (bb_ymin b))"
    from n assms have "?p \<in> extent a \<inter> extent b"
      by (auto simp: bb_disjoint_def extent_def valid_box_def)
    with e show False by blast
  qed
qed

text \<open>For boxes with integer coordinates, \<open>bb_disjoint\<close> also says that the closed
  rectangles \<open>[x_min, x_max] \<times> [y_min, y_max]\<close> have no point in common.\<close>

lemma int_less_add_one:
  fixes x y :: real
  assumes "x \<in> \<int>" and "y \<in> \<int>" and "x < y"
  shows "x + 1 \<le> y"
proof -
  from assms(1,2) obtain m n :: int where "x = of_int m" "y = of_int n"
    by (auto elim!: Ints_cases)
  with assms(3) show ?thesis by simp
qed

lemma bb_disjoint_closed_rect:
  assumes "valid_box a" and "valid_box b" and "on_grid a" and "on_grid b"
  shows "bb_disjoint a b \<longleftrightarrow> closed_rect a \<inter> closed_rect b = {}"
proof
  assume "bb_disjoint a b"
  then show "closed_rect a \<inter> closed_rect b = {}"
    by (auto simp: bb_disjoint_def closed_rect_def)
next
  assume e: "closed_rect a \<inter> closed_rect b = {}"
  let ?p = "(max (bb_xmin a) (bb_xmin b), max (bb_ymin a) (bb_ymin b))"
  from e have "?p \<notin> closed_rect a \<inter> closed_rect b" by blast
  with assms(1,2) have "bb_xmax a < bb_xmin b \<or> bb_xmax b < bb_xmin a \<or>
      bb_ymax a < bb_ymin b \<or> bb_ymax b < bb_ymin a"
    by (auto simp: closed_rect_def valid_box_def)
  with assms(3,4) show "bb_disjoint a b"
    unfolding bb_disjoint_def on_grid_def by (auto intro: int_less_add_one)
qed

text \<open>The intersection of two intervals is no longer than the first of them.\<close>

lemma inter_area_le:
  fixes a0 a1 b0 b1 c0 c1 d0 d1 :: real
  assumes "a0 \<le> a1" and "c0 \<le> c1"
    and ih: "0 < min c1 d1 - max c0 d0 + 1"
  shows "(min a1 b1 - max a0 b0 + 1) * (min c1 d1 - max c0 d0 + 1)
         \<le> (a1 - a0 + 1) * (c1 - c0 + 1)"
proof (rule mult_mono)
  show "min a1 b1 - max a0 b0 + 1 \<le> a1 - a0 + 1" by linarith
  show "min c1 d1 - max c0 d0 + 1 \<le> c1 - c0 + 1" by linarith
  show "0 \<le> a1 - a0 + 1" using assms by linarith
  show "0 \<le> min c1 d1 - max c0 d0 + 1" using ih by linarith
qed

lemma bb_overlap_bounds:
  assumes a: "valid_box a" and b: "valid_box b"
  shows "\<exists>v. bb_overlap a b = Inr v \<and> 0 \<le> v \<and> v \<le> 1"
proof -
  define iw where "iw = min (bb_xmax a) (bb_xmax b) - max (bb_xmin a) (bb_xmin b) + 1"
  define ih where "ih = min (bb_ymax a) (bb_ymax b) - max (bb_ymin a) (bb_ymin b) + 1"
  define aa where "aa = (bb_xmax a - bb_xmin a + 1) * (bb_ymax a - bb_ymin a + 1)"
  define ab where "ab = (bb_xmax b - bb_xmin b + 1) * (bb_ymax b - bb_ymin b + 1)"
  show ?thesis
  proof (cases "0 < iw \<and> 0 < ih")
    case False
    then show ?thesis by (auto simp: bb_overlap_def Let_def iw_def ih_def)
  next
    case True
    have le_a: "iw * ih \<le> aa"
      unfolding iw_def ih_def aa_def
      using a True by (intro inter_area_le) (auto simp: valid_box_def ih_def)
    have le_b: "iw * ih \<le> ab"
    proof -
      have "(min (bb_xmax b) (bb_xmax a) - max (bb_xmin b) (bb_xmin a) + 1) *
            (min (bb_ymax b) (bb_ymax a) - max (bb_ymin b) (bb_ymin a) + 1) \<le> ab"
        unfolding ab_def
        using b True
        by (intro inter_area_le) (auto simp: valid_box_def ih_def min.commute max.commute)
      then show ?thesis by (simp add: iw_def ih_def min.commute max.commute)
    qed
    have pos: "0 < iw * ih" using True by simp
    have ua: "0 < aa + ab - iw * ih" using le_a le_b pos by linarith
    have "bb_overlap a b = Inr (iw * ih / (aa + ab - iw * ih))"
      using True ua by (simp add: bb_overlap_def Let_def iw_def ih_def aa_def ab_def)
    moreover have "0 \<le> iw * ih / (aa + ab - iw * ih)" using pos ua by simp
    moreover have "iw * ih \<le> aa + ab - iw * ih" using le_a le_b by linarith
    then have "iw * ih / (aa + ab - iw * ih) \<le> 1" using ua by (simp add: divide_le_eq)
    ultimately show ?thesis by blast
  qed
qed

lemma bb_overlap_self:
  assumes "valid_box a"
  shows "bb_overlap a a = Inr 1"
proof -
  have "0 < bb_xmax a - bb_xmin a + 1" "0 < bb_ymax a - bb_ymin a + 1"
    using assms by (auto simp: valid_box_def)
  then show ?thesis by (simp add: bb_overlap_def Let_def)
qed

lemma bb_overlap_disjoint: "bb_disjoint a b \<Longrightarrow> bb_overlap a b = Inr 0"
  by (auto simp: bb_overlap_def bb_disjoint_def Let_def)

lemma calculate_bb_overlap_single:
  "calculate_bb_overlap [a] [b] = (case bb_overlap a b of Inl e \<Rightarrow> Inl e | Inr v \<Rightarrow> Inr [[v]])"
  by (simp add: calculate_bb_overlap_def split: sum.splits)

text \<open>
  Claim C7. For valid boxes \<open>a\<close> and \<open>b\<close>, \<^verbatim>\<open>calculate_bb_overlap\<close> called on the pair
  returns the same overlap in either order, the overlap lies in \<open>[0, 1]\<close>, the overlap of
  a box with itself is exactly \<open>1\<close>, and the overlap of two boxes whose pixel inclusive
  extents are disjoint is exactly \<open>0\<close>.
\<close>

theorem calculate_bb_overlap_symmetric_bounded:
  assumes "valid_box a" and "valid_box b"
  shows "\<exists>v. calculate_bb_overlap [a] [b] = Inr [[v]] \<and>
             calculate_bb_overlap [b] [a] = Inr [[v]] \<and>
             0 \<le> v \<and> v \<le> 1 \<and>
             calculate_bb_overlap [a] [a] = Inr [[1]] \<and>
             (bb_disjoint a b \<longrightarrow> v = 0)"
proof -
  from bb_overlap_bounds [OF assms] obtain v
    where v: "bb_overlap a b = Inr v" "0 \<le> v" "v \<le> 1" by blast
  have "bb_overlap b a = Inr v" using v(1) by (simp add: bb_overlap_commute)
  moreover have "bb_disjoint a b \<longrightarrow> v = 0" using v(1) by (auto dest: bb_overlap_disjoint)
  ultimately show ?thesis
    using v bb_overlap_self [OF assms(1)] by (simp add: calculate_bb_overlap_single)
qed

theorem calculate_bb_overlap_symmetric_bounded_witness:
  "valid_box anchor16 \<and> valid_box box_far \<and> bb_disjoint anchor16 box_far \<and>
   calculate_bb_overlap [anchor16] [box_far] = Inr [[0]] \<and>
   calculate_bb_overlap [box_far] [anchor16] = Inr [[0]] \<and>
   calculate_bb_overlap [anchor16] [anchor16] = Inr [[1]]"
proof -
  have h: "valid_box anchor16" "valid_box box_far"
    by (simp_all add: valid_box_def anchor16_def box_far_def)
  have d: "bb_disjoint anchor16 box_far"
    by (simp add: bb_disjoint_def anchor16_def box_far_def)
  show ?thesis
    using h d calculate_bb_overlap_symmetric_bounded [OF h] by auto
qed

subsection \<open>Floating point rounding\<close>

text \<open>\<open>expo\<close> is the binary exponent.\<close>

lemma expo_bounds:
  assumes "0 < y"
  shows "2 powi (expo y) \<le> y" and "y < 2 powi (expo y + 1)"
proof -
  have "2 powi (expo y) \<le> y \<and> y < 2 powi (expo y + 1)"
  proof (cases "1 \<le> y")
    case True
    define m where "m = \<lfloor>y\<rfloor>"
    have m: "0 < m" using True by (simp add: m_def)
    have b1: "1 \<le> bitlen m" using m bitlen_eq_zero_iff [of m] bitlen_nonneg [of m] by linarith
    from bitlen_bounds [OF m] have lo: "2 ^ nat (bitlen m - 1) \<le> m" and hi: "m < 2 ^ nat (bitlen m)"
      by auto
    have e: "expo y = bitlen m - 1" using True by (simp add: expo_def m_def)
    have "(2::real) powi (bitlen m - 1) = 2 ^ nat (bitlen m - 1)"
      using b1 by (simp add: power_int_nonneg_exp)
    also have "\<dots> \<le> real_of_int m"
      using lo of_int_le_iff [where ?'a = real, of "2 ^ nat (bitlen m - 1)" m] by simp
    also have "\<dots> \<le> y" by (simp add: m_def)
    finally have L: "2 powi (expo y) \<le> y" by (simp add: e)
    have "m + 1 \<le> 2 ^ nat (bitlen m)" using hi by simp
    then have "real_of_int (m + 1) \<le> 2 ^ nat (bitlen m)"
      using of_int_le_iff [where ?'a = real, of "m + 1" "2 ^ nat (bitlen m)"] by simp
    moreover have "y < real_of_int (m + 1)" unfolding m_def by linarith
    ultimately have "y < 2 ^ nat (bitlen m)" by linarith
    also have "\<dots> = (2::real) powi (bitlen m)" using b1 by (simp add: power_int_nonneg_exp)
    finally have "y < 2 powi (expo y + 1)" by (simp add: e)
    with L show ?thesis by simp
  next
    case False
    define c where "c = \<lceil>1 / y\<rceil>"
    define k where "k = bitlen (c - 1)"
    have y1: "y < 1" using False by simp
    have inv: "1 < 1 / y" using assms y1 by simp
    then have c2: "2 \<le> c" unfolding c_def by (simp add: le_ceiling_iff)
    then have m: "0 < c - 1" by simp
    have k1: "1 \<le> k" unfolding k_def
      using m bitlen_eq_zero_iff [of "c - 1"] bitlen_nonneg [of "c - 1"] by linarith
    from bitlen_bounds [OF m] have lo: "2 ^ nat (k - 1) \<le> c - 1" and hi: "c - 1 < 2 ^ nat k"
      by (auto simp: k_def)
    have e: "expo y = - k" using False by (simp add: expo_def c_def k_def)
    have "c \<le> 2 ^ nat k" using hi by simp
    then have "real_of_int c \<le> 2 ^ nat k"
      using of_int_le_iff [where ?'a = real, of c "2 ^ nat k"] by simp
    moreover have "1 / y \<le> real_of_int c" by (simp add: c_def)
    ultimately have "1 / y \<le> 2 ^ nat k" by linarith
    then have "1 \<le> 2 ^ nat k * y" using assms by (simp add: divide_le_eq)
    then have "1 / 2 ^ nat k \<le> y" by (simp add: divide_le_eq mult.commute)
    moreover have "(2::real) powi (- k) = 1 / 2 ^ nat k"
      using k1 by (simp add: power_int_minus_divide power_int_nonneg_exp)
    ultimately have L: "2 powi (expo y) \<le> y" by (simp add: e)
    have "2 ^ nat (k - 1) \<le> real_of_int (c - 1)"
      using lo of_int_le_iff [where ?'a = real, of "2 ^ nat (k - 1)" "c - 1"] by simp
    moreover have "real_of_int (c - 1) < 1 / y" unfolding c_def by linarith
    ultimately have "2 ^ nat (k - 1) < 1 / y" by linarith
    then have "2 ^ nat (k - 1) * y < 1" using assms by (simp add: less_divide_eq)
    then have "y < 1 / 2 ^ nat (k - 1)" by (simp add: less_divide_eq mult.commute)
    moreover have "(2::real) powi (- k + 1) = 1 / 2 ^ nat (k - 1)"
    proof -
      have "(2::real) powi (- k + 1) = 2 powi (- (k - 1))" by simp
      also have "\<dots> = 1 / 2 powi (k - 1)" by (rule power_int_minus_divide)
      also have "\<dots> = 1 / 2 ^ nat (k - 1)" using k1 by (simp add: power_int_nonneg_exp)
      finally show ?thesis .
    qed
    ultimately have "y < 2 powi (expo y + 1)" by (simp add: e)
    with L show ?thesis by simp
  qed
  then show "2 powi (expo y) \<le> y" and "y < 2 powi (expo y + 1)" by simp_all
qed

lemma expo_eqI:
  assumes "0 < y" and lo: "2 powi e \<le> y" and hi: "y < 2 powi (e + 1)"
  shows "expo y = e"
proof -
  from expo_bounds [OF assms(1)] have a: "2 powi (expo y) \<le> y" and b: "y < 2 powi (expo y + 1)" .
  have "(2::real) powi e < 2 powi (expo y + 1)" using lo b by linarith
  then have 1: "e < expo y + 1"
    by (metis (no_types) power_int_increasing linorder_not_less one_le_numeral)
  have "(2::real) powi (expo y) < 2 powi (e + 1)" using a hi by linarith
  then have 2: "expo y < e + 1"
    by (metis (no_types) power_int_increasing linorder_not_less one_le_numeral)
  from 1 2 show ?thesis by simp
qed

lemma round_float_eval:
  assumes "x \<noteq> 0" and "2 powi e \<le> \<bar>x\<bar>" and "\<bar>x\<bar> < 2 powi (e + 1)" and "emin \<le> e"
  shows "round_float p emin x =
         real_of_int (np_round (x / 2 powi (e - int p + 1))) * 2 powi (e - int p + 1)"
proof -
  have "expo \<bar>x\<bar> = e" using assms by (intro expo_eqI) auto
  then show ?thesis using assms(1,4) by (simp add: round_float_def Let_def max_def)
qed

lemma np_round_of_int [simp]: "np_round (real_of_int k) = k"
  by (simp add: np_round_def Let_def)

lemma np_round_mono_int: "y \<le> real_of_int N \<Longrightarrow> np_round y \<le> N"
  unfolding np_round_def Let_def
  by (auto simp: floor_le_iff)

lemma np_round_nonneg: "0 \<le> y \<Longrightarrow> 0 \<le> np_round y"
  unfolding np_round_def Let_def by auto

lemma round_float_nonneg: "0 \<le> x \<Longrightarrow> 0 \<le> round_float p emin x"
  by (simp add: round_float_def Let_def np_round_nonneg)

lemma expo_less:
  assumes "0 < y" and "y < 2 powi k"
  shows "expo y < k"
proof -
  from expo_bounds(1) [OF assms(1)] assms(2) have "(2::real) powi (expo y) < 2 powi k" by linarith
  then show ?thesis
    by (metis (no_types) power_int_increasing linorder_not_less one_le_numeral)
qed

lemma round_float_exact:
  assumes x: "x = real_of_int m * 2 powi j" and m: "\<bar>m\<bar> < 2 ^ p" and j: "emin - int p + 1 \<le> j"
  shows "round_float p emin x = x"
proof (cases "x = 0")
  case True
  then show ?thesis by (simp add: round_float_def)
next
  case False
  define e where "e = max (expo \<bar>x\<bar>) emin"
  define d where "d = j - (e - int p + 1)"
  have "\<bar>real_of_int m\<bar> < 2 ^ p"
    using m of_int_less_iff [where ?'a = real, of "\<bar>m\<bar>" "2 ^ p"] by simp
  then have "\<bar>x\<bar> < 2 ^ p * 2 powi j"
    unfolding x abs_mult by (simp add: mult_strict_right_mono)
  also have "\<dots> = 2 powi (int p + j)" by (simp add: power_int_add)
  finally have "expo \<bar>x\<bar> < int p + j" using False by (intro expo_less) auto
  then have d0: "0 \<le> d" using j by (simp add: d_def e_def)
  have "x / 2 powi (e - int p + 1) = real_of_int m * 2 powi d"
    unfolding x d_def by (simp add: power_int_diff)
  also have "\<dots> = real_of_int (m * 2 ^ nat d)" using d0 by (simp add: power_int_nonneg_exp)
  finally have q: "x / 2 powi (e - int p + 1) = real_of_int (m * 2 ^ nat d)" .
  have r: "np_round (x / 2 powi (e - int p + 1)) = m * 2 ^ nat d"
    by (simp only: q np_round_of_int)
  have "round_float p emin x =
        real_of_int (np_round (x / 2 powi (e - int p + 1))) * 2 powi (e - int p + 1)"
    using False by (simp add: round_float_def Let_def e_def)
  also have "\<dots> = x / 2 powi (e - int p + 1) * 2 powi (e - int p + 1)"
    by (simp only: q np_round_of_int)
  also have "\<dots> = x" by simp
  finally show ?thesis .
qed

lemma round_float_le_int:
  assumes "x \<le> real_of_int n" and "0 \<le> x" and "n < 2 ^ p" and "emin \<le> int p - 1"
  shows "round_float p emin x \<le> real_of_int n"
proof (cases "x = 0")
  case True
  then show ?thesis using assms(1) by (simp add: round_float_def)
next
  case False
  define e where "e = max (expo \<bar>x\<bar>) emin"
  define u :: real where "u = 2 powi (e - int p + 1)"
  define d where "d = int p - 1 - e"
  have xp: "0 < x" using False assms(2) by simp
  have "real_of_int n < 2 ^ p"
    using assms(3) of_int_less_iff [where ?'a = real, of n "2 ^ p"] by simp
  with assms(1) have "x < 2 ^ p" by linarith
  then have "x < 2 powi (int p)" by simp
  then have "expo \<bar>x\<bar> < int p" using xp by (intro expo_less) auto
  then have d0: "0 \<le> d" using assms(4) by (simp add: d_def e_def)
  have u0: "0 < u" by (simp add: u_def)
  have "1 / u = 2 powi d" unfolding u_def d_def
    using power_int_minus_divide [of "2::real" "int p - 1 - e"] by (simp add: algebra_simps)
  then have nu: "real_of_int n / u = real_of_int (n * 2 ^ nat d)"
    using d0 by (simp add: power_int_nonneg_exp divide_inverse)
  have "x / u \<le> real_of_int n / u" using assms(1) u0 by (simp add: divide_right_mono)
  then have "np_round (x / u) \<le> n * 2 ^ nat d" unfolding nu by (rule np_round_mono_int)
  then have "real_of_int (np_round (x / u)) \<le> real_of_int (n * 2 ^ nat d)"
    by (simp only: of_int_le_iff)
  then have "real_of_int (np_round (x / u)) * u \<le> real_of_int (n * 2 ^ nat d) * u"
    using u0 by (simp only: mult_le_cancel_right_pos)
  also have "\<dots> = real_of_int n" using nu u0 by (simp add: field_simps)
  finally show ?thesis
    using False unfolding round_float_def Let_def e_def [symmetric] u_def [symmetric] by simp
qed

lemma fl64_eval:
  assumes "x \<noteq> 0" and "2 powi e \<le> \<bar>x\<bar>" and "\<bar>x\<bar> < 2 powi (e + 1)" and "- 1022 \<le> e"
  shows "fl64 x = real_of_int (np_round (x / 2 powi (e - 52))) * 2 powi (e - 52)"
  using round_float_eval [OF assms, of 53] by (simp add: fl64_def)

lemma fl32_eval:
  assumes "x \<noteq> 0" and "2 powi e \<le> \<bar>x\<bar>" and "\<bar>x\<bar> < 2 powi (e + 1)" and "- 126 \<le> e"
  shows "fl32 x = real_of_int (np_round (x / 2 powi (e - 23))) * 2 powi (e - 23)"
  using round_float_eval [OF assms, of 24] by (simp add: fl32_def)

lemma fl64_of_int: "\<bar>n\<bar> < 2 ^ 53 \<Longrightarrow> fl64 (real_of_int n) = real_of_int n"
  using round_float_exact [of "real_of_int n" n 0 53 "- 1022"] by (simp add: fl64_def)

lemma fl32_of_int: "\<bar>n\<bar> < 2 ^ 24 \<Longrightarrow> fl32 (real_of_int n) = real_of_int n"
  using round_float_exact [of "real_of_int n" n 0 24 "- 126"] by (simp add: fl32_def)

lemma fl64_numeral: "(numeral w :: int) < 2 ^ 53 \<Longrightarrow> fl64 (numeral w) = numeral w"
  using fl64_of_int [of "numeral w"] by simp

lemma fl32_numeral: "(numeral w :: int) < 2 ^ 24 \<Longrightarrow> fl32 (numeral w) = numeral w"
  using fl32_of_int [of "numeral w"] by simp

lemma fl64_one: "fl64 1 = 1"
  using fl64_of_int [of 1] by simp

lemma fl32_one: "fl32 1 = 1"
  using fl32_of_int [of 1] by simp

lemma fl32_minus_one: "fl32 (- 1) = - 1"
  using fl32_of_int [of "- 1"] by simp

lemma fl64_zero: "fl64 0 = 0"
  by (simp add: fl64_def round_float_def)

lemma fl32_zero: "fl32 0 = 0"
  by (simp add: fl32_def round_float_def)

lemma fl64_half: "fl64 (1 / 2) = 1 / 2"
  using round_float_exact [of "1 / 2" 1 "- 1" 53 "- 1022"] by (simp add: fl64_def)

lemma max64_gt: "x < 2 ^ 53 \<Longrightarrow> x < max64"
proof -
  have "(2::real) ^ 53 < max64" by (simp add: max64_def)
  then show "x < 2 ^ 53 \<Longrightarrow> x < max64" by linarith
qed

lemma py_float_exact: "\<bar>n\<bar> < 2 ^ 53 \<Longrightarrow> py_float n = Inr (real_of_int n)"
proof -
  assume a: "\<bar>n\<bar> < 2 ^ 53"
  then have "\<bar>real_of_int n\<bar> < 2 ^ 53"
    using of_int_less_iff [where ?'a = real, of "\<bar>n\<bar>" "2 ^ 53"] by simp
  then have "\<not> max64 \<le> \<bar>real_of_int n\<bar>" using max64_gt [of "\<bar>real_of_int n\<bar>"] by simp
  then show ?thesis using a by (simp add: py_float_def fl64_of_int)
qed

lemma np_int32_id: "- (2 ^ 31) \<le> n \<Longrightarrow> n < 2 ^ 31 \<Longrightarrow> np_int32 n = Inr n"
  by (simp add: np_int32_def)

lemma np_round_numeral: "np_round (numeral w) = numeral w"
  using np_round_of_int [of "numeral w"] by simp

subsection \<open>Scale and shape\<close>

lemma ObjectLocalization_fields:
  "MAX_SIZE (ObjectLocalization n) = 1000"
  "MIN_SIZE (ObjectLocalization n) = 600"
  "NEGATIVE_OVERLAP (ObjectLocalization n) = 3 / 10"
  "POSITIVE_OVERLAP (ObjectLocalization n) = 7 / 10"
  "FG_FRACTION (ObjectLocalization n) = 1 / 2"
  "self_total_anchors (ObjectLocalization n) = n"
  by (simp_all add: ObjectLocalization_def)

text \<open>The roundings of the examples: \<open>600 / 1000\<close> and its product with \<open>2000\<close>,
  \<open>600 / 224\<close> and its products with \<open>350\<close> and \<open>224\<close>.\<close>

lemma fl64_3_5: "fl64 (3 / 5) = 5404319552844595 / 2 ^ 53"
  by (subst fl64_eval [where e = "- 1"]) (simp_all add: np_round_def Let_def)

lemma fl64_1200: "fl64 (675539944105574375 / 562949953421312) = 1200"
  by (subst fl64_eval [where e = 10]) (simp_all add: np_round_def Let_def)

lemma fl64_75_28: "fl64 (75 / 28) = 6031606643799771 / 2 ^ 51"
  by (subst fl64_eval [where e = 1]) (simp_all add: np_round_def Let_def)

lemma fl64_937: "fl64 (1055531162664959925 / 1125899906842624) = 8246337208319999 / 2 ^ 43"
  by (subst fl64_eval [where e = 9]) (simp_all add: np_round_def Let_def)

lemma fl64_600: "fl64 (42221246506598397 / 70368744177664) = 600"
  by (subst fl64_eval [where e = 9]) (simp_all add: np_round_def Let_def)

lemma np_round_937: "np_round (8246337208319999 / 2 ^ 43) = 937"
  by (simp add: np_round_def Let_def)

lemma resolve_2000_1000: "resolve 600 1000 (2000, 1000) = (1 / 2, (1000, 500))"
  by (simp add: resolve_def Let_def fl64_3_5 fl64_1200 fl64_half fl64_numeral np_round_numeral)

lemma resolve_800_600: "resolve 600 1000 (800, 600) = (1, (800, 600))"
  by (simp add: resolve_def Let_def fl64_one fl64_numeral np_round_numeral)

lemma resolve_224_350:
  "resolve 600 1000 (224, 350) = (6031606643799771 / 2 ^ 51, (600, 937))"
  using np_round_937
  by (simp add: resolve_def Let_def fl64_75_28 fl64_937 fl64_600 np_round_numeral)

lemma scale_shape_in_range:
  assumes "0 < w" "w < 2 ^ 31" "0 < h" "h < 2 ^ 31"
    and "\<bar>MIN_SIZE self\<bar> \<le> 2 ^ 31" and "\<bar>MAX_SIZE self\<bar> \<le> 2 ^ 31"
  shows "calculate_scale_shape self (w, h) = Inr (resolve (MIN_SIZE self) (MAX_SIZE self) (w, h))"
proof -
  have w: "np_int32 w = Inr w" and h: "np_int32 h = Inr h"
    using assms(1-4) by (simp_all add: np_int32_id)
  have a: "py_float (MIN_SIZE self) = Inr (real_of_int (MIN_SIZE self))"
    and b: "py_float (MAX_SIZE self) = Inr (real_of_int (MAX_SIZE self))"
    using assms(5,6) by (simp_all add: py_float_exact)
  have ne: "min w h \<noteq> 0" "max w h \<noteq> 0" using assms(1,3) by auto
  show ?thesis
    using ne by (simp add: calculate_scale_shape_def resolve_def Let_def w h a b)
qed

lemma scale_shape_2000_1000:
  "calculate_scale_shape (ObjectLocalization n) (2000, 1000) = Inr (1 / 2, (1000, 500))"
  using scale_shape_in_range [of 2000 1000 "ObjectLocalization n"]
  by (simp add: ObjectLocalization_fields resolve_2000_1000)

lemma scale_shape_800_600:
  "calculate_scale_shape (ObjectLocalization n) (800, 600) = Inr (1, (800, 600))"
  using scale_shape_in_range [of 800 600 "ObjectLocalization n"]
  by (simp add: ObjectLocalization_fields resolve_800_600)

text \<open>
  Claim C8. For a raw shape \<open>(w, h)\<close> with positive components (of \<^verbatim>\<open>int32\<close>, as the
  code makes them, and with \<^verbatim>\<open>MIN_SIZE\<close> and \<^verbatim>\<open>MAX_SIZE\<close> of magnitude up to
  \<open>2 ^ 31\<close>) \<^verbatim>\<open>calculate_scale_shape\<close> returns the scale and the shape of the rule
  \<open>resolve\<close>, computed with the \<^verbatim>\<open>float64\<close> quotients and products of the program and
  with \<^verbatim>\<open>np.round\<close>; with the sides \<open>600\<close> and \<open>1000\<close> the shape \<open>(2000, 1000)\<close> gives
  the scale \<open>0.5\<close> and the shape \<open>(1000, 500)\<close>, and the shape \<open>(800, 600)\<close> gives the
  scale \<open>1\<close> and the shape \<open>(800, 600)\<close>.
\<close>

theorem calculate_scale_shape_resolve:
  "(0 < w \<and> w < 2 ^ 31 \<and> 0 < h \<and> h < 2 ^ 31 \<and>
    \<bar>MIN_SIZE self\<bar> \<le> 2 ^ 31 \<and> \<bar>MAX_SIZE self\<bar> \<le> 2 ^ 31 \<longrightarrow>
      calculate_scale_shape self (w, h) = Inr (resolve (MIN_SIZE self) (MAX_SIZE self) (w, h))) \<and>
   calculate_scale_shape (ObjectLocalization n) (2000, 1000) = Inr (1 / 2, (1000, 500)) \<and>
   calculate_scale_shape (ObjectLocalization n) (800, 600) = Inr (1, (800, 600))"
  using scale_shape_in_range [of w h self] scale_shape_2000_1000 scale_shape_800_600 by blast

text \<open>
  At the shape \<open>(224, 350)\<close> the exact product \<open>350 * 600 / 224\<close> is \<open>937.5\<close>, which would
  round to \<open>938\<close>; the \<^verbatim>\<open>float64\<close> product is just below it, and the height is \<open>937\<close>.
\<close>

theorem calculate_scale_shape_resolve_witness:
  "calculate_scale_shape (ObjectLocalization 0) (224, 350) =
     Inr (6031606643799771 / 2 ^ 51, (600, 937)) \<and>
   resolve 600 1000 (224, 350) = (6031606643799771 / 2 ^ 51, (600, 937))"
proof -
  have h: "(0::int) < 224 \<and> (224::int) < 2 ^ 31 \<and> (0::int) < 350 \<and> (350::int) < 2 ^ 31 \<and>
           \<bar>MIN_SIZE (ObjectLocalization 0)\<bar> \<le> 2 ^ 31 \<and> \<bar>MAX_SIZE (ObjectLocalization 0)\<bar> \<le> 2 ^ 31"
    by (simp add: ObjectLocalization_fields)
  from calculate_scale_shape_resolve [of 224 350 "ObjectLocalization 0" 0] h
  have "calculate_scale_shape (ObjectLocalization 0) (224, 350) =
        Inr (resolve (MIN_SIZE (ObjectLocalization 0)) (MAX_SIZE (ObjectLocalization 0)) (224, 350))"
    by blast
  then show ?thesis by (simp add: ObjectLocalization_fields resolve_224_350)
qed

subsection \<open>Back to the full canvas\<close>

lemma scatter_gathered:
  "\<forall>j \<in> set inds. j < length ret \<Longrightarrow>
   length (fold (\<lambda>(i, v) r. r[i := v]) (zip inds (map (\<lambda>i. f (full ! i)) inds)) ret) = length ret \<and>
   (\<forall>i < length ret.
      fold (\<lambda>(i, v) r. r[i := v]) (zip inds (map (\<lambda>i. f (full ! i)) inds)) ret ! i =
        (if i \<in> set inds then f (full ! i) else ret ! i))"
proof (induction inds arbitrary: ret)
  case Nil
  then show ?case by simp
next
  case (Cons j inds)
  have "\<forall>k \<in> set inds. k < length (ret[j := f (full ! j)])" using Cons.prems by simp
  from Cons.IH [OF this] show ?case
    using Cons.prems by (auto simp: nth_list_update)
qed

lemma assign_at_gathered:
  assumes "\<forall>j \<in> set inds. j < n"
  shows "\<exists>ret. assign_at (replicate n fill) inds (map (\<lambda>i. f (full ! i)) inds) = Inr ret \<and>
           length ret = n \<and>
           (\<forall>i < n. ret ! i = (if i \<in> set inds then f (full ! i) else fill))"
proof -
  have b: "\<forall>j \<in> set inds. j < length (replicate n fill)" using assms by simp
  have nb: "\<not> (\<exists>i \<in> set inds. length (replicate n fill) \<le> i)" using assms by auto
  from scatter_gathered [OF b, of f full] nb show ?thesis
    by (simp add: assign_at_def)
qed

lemma list2_nth: "length xs = 2 \<Longrightarrow> xs = [xs ! 0, xs ! 1]"
  by (cases xs; cases "tl xs") auto

lemma fl32_16777217: "fl32 16777217 = 16777216"
  by (subst fl32_eval [where e = 24]) (simp_all add: np_round_def Let_def)

text \<open>
  Claim C6 fails on the code: \<^verbatim>\<open>_unmap\<close> stores into an array of \<^verbatim>\<open>float32\<close>, so
  the entry \<open>16777217\<close> of an array of integers (or of \<^verbatim>\<open>float64\<close>) comes back as
  \<open>16777216\<close> at its listed position.
\<close>

theorem unmap_array_float32_counterexample:
  "gather_array (Arr1 [16777217 :: real]) [0] = Inr (Arr1 [16777217]) \<and>
   unmap_array (Arr1 [16777217]) 1 [0] 0 = Inr (Arr1 [16777216])"
  by (simp add: gather_array_def gather_def unmap_array_def assign_at_def fl32_16777217 fl32_zero)

text \<open>
  Claim C6 as amended. For an array \<open>full\<close>, indices \<open>inds\<close> within it, and a fill value,
  all numbers being finite and within the range of \<^verbatim>\<open>float32\<close>, \<^verbatim>\<open>_unmap\<close> of the
  gathered entries \<^verbatim>\<open>full[inds]\<close> with the length of \<open>full\<close> as \<^verbatim>\<open>count\<close> returns an
  array of that length which holds the \<^verbatim>\<open>float32\<close> rounding of the entry of \<open>full\<close> at
  every listed index and the \<^verbatim>\<open>float32\<close> rounding of the fill value at every other
  index; for an array of two dimensions the entries are the rows, rounded entry by entry,
  and a row that is not listed is filled with the rounded fill value.
\<close>

theorem unmap_array_gather:
  assumes "\<forall>i \<in> set inds. i < length full" and "\<forall>i \<in> set inds. i < length rows"
    and "\<forall>v \<in> set full. \<bar>v\<bar> < max32" and "\<forall>row \<in> set rows. \<forall>v \<in> set row. \<bar>v\<bar> < max32"
    and "\<bar>fill\<bar> < max32"
  shows "(\<exists>g ret. gather_array (Arr1 full) inds = Inr g \<and>
            unmap_array g (int (length full)) inds fill = Inr (Arr1 ret) \<and>
            length ret = length full \<and>
            (\<forall>i < length full. ret ! i = (if i \<in> set inds then fl32 (full ! i) else fl32 fill))) \<and>
         (\<exists>g ret. gather_array (Arr2 c rows) inds = Inr g \<and>
            unmap_array g (int (length rows)) inds fill = Inr (Arr2 c ret) \<and>
            length ret = length rows \<and>
            (\<forall>i < length rows. ret ! i =
               (if i \<in> set inds then map fl32 (rows ! i) else replicate c (fl32 fill))))"
proof
  have g1: "gather_array (Arr1 full) inds = Inr (Arr1 (map (\<lambda>i. full ! i) inds))"
    using assms(1) by (auto simp: gather_array_def gather_def)
  have d1: "map fl32 (map (\<lambda>i. full ! i) inds) = map (\<lambda>i. fl32 (full ! i)) inds" by simp
  from assign_at_gathered [OF assms(1), of "fl32 fill" fl32 full] obtain ret where
    "assign_at (replicate (length full) (fl32 fill)) inds (map (\<lambda>i. fl32 (full ! i)) inds) = Inr ret"
    "length ret = length full"
    "\<forall>i < length full. ret ! i = (if i \<in> set inds then fl32 (full ! i) else fl32 fill)" by blast
  then show "\<exists>g ret. gather_array (Arr1 full) inds = Inr g \<and>
            unmap_array g (int (length full)) inds fill = Inr (Arr1 ret) \<and>
            length ret = length full \<and>
            (\<forall>i < length full. ret ! i = (if i \<in> set inds then fl32 (full ! i) else fl32 fill))"
    using g1 by (simp add: unmap_array_def d1 del: map_map)
next
  have g2: "gather_array (Arr2 c rows) inds = Inr (Arr2 c (map (\<lambda>i. rows ! i) inds))"
    using assms(2) by (auto simp: gather_array_def gather_def)
  have d2: "map (map fl32) (map (\<lambda>i. rows ! i) inds) = map (\<lambda>i. map fl32 (rows ! i)) inds"
    by simp
  from assign_at_gathered [OF assms(2), of "replicate c (fl32 fill)" "map fl32" rows] obtain ret where
    "assign_at (replicate (length rows) (replicate c (fl32 fill))) inds
       (map (\<lambda>i. map fl32 (rows ! i)) inds) = Inr ret"
    "length ret = length rows"
    "\<forall>i < length rows. ret ! i =
       (if i \<in> set inds then map fl32 (rows ! i) else replicate c (fl32 fill))" by blast
  then show "\<exists>g ret. gather_array (Arr2 c rows) inds = Inr g \<and>
            unmap_array g (int (length rows)) inds fill = Inr (Arr2 c ret) \<and>
            length ret = length rows \<and>
            (\<forall>i < length rows. ret ! i =
               (if i \<in> set inds then map fl32 (rows ! i) else replicate c (fl32 fill)))"
    using g2 by (simp add: unmap_array_def d2 del: map_map)
qed

theorem unmap_array_gather_witness:
  "gather_array (Arr1 [7, 8 :: real]) [1] = Inr (Arr1 [8]) \<and>
   unmap_array (Arr1 [8 :: real]) 2 [1] 9 = Inr (Arr1 [9, 8]) \<and>
   gather_array (Arr2 2 [[1, 2], [3, 4 :: real]]) [1] = Inr (Arr2 2 [[3, 4]]) \<and>
   unmap_array (Arr2 2 [[3, 4 :: real]]) 2 [1] 9 = Inr (Arr2 2 [[9, 9], [3, 4]])"
proof -
  have h1: "\<forall>i \<in> set [1]. i < length [7, 8 :: real]" by simp
  have h2: "\<forall>i \<in> set [1]. i < length [[1, 2], [3, 4 :: real]]" by simp
  have h3: "\<forall>v \<in> set [7, 8 :: real]. \<bar>v\<bar> < max32" by (simp add: max32_def)
  have h4: "\<forall>row \<in> set [[1, 2], [3, 4 :: real]]. \<forall>v \<in> set row. \<bar>v\<bar> < max32"
    by (simp add: max32_def)
  have h5: "\<bar>9 :: real\<bar> < max32" by (simp add: max32_def)
  from unmap_array_gather [OF h1 h2 h3 h4 h5, of 2] obtain g ret g' ret' where
    a: "gather_array (Arr1 [7, 8 :: real]) [1] = Inr g"
       "unmap_array g (int (length [7, 8 :: real])) [1] 9 = Inr (Arr1 ret)"
       "length ret = length [7, 8 :: real]"
       "\<forall>i < length [7, 8 :: real]. ret ! i = (if i \<in> set [1] then fl32 ([7, 8] ! i) else fl32 9)"
    and b: "gather_array (Arr2 2 [[1, 2], [3, 4 :: real]]) [1] = Inr g'"
       "unmap_array g' (int (length [[1, 2], [3, 4 :: real]])) [1] 9 = Inr (Arr2 2 ret')"
       "length ret' = length [[1, 2], [3, 4 :: real]]"
       "\<forall>i < length [[1, 2], [3, 4 :: real]].
          ret' ! i = (if i \<in> set [1] then map fl32 ([[1, 2], [3, 4]] ! i) else replicate 2 (fl32 9))"
    by blast
  have g: "g = Arr1 [8]" using a(1) by (simp add: gather_array_def gather_def)
  have g': "g' = Arr2 2 [[3, 4]]" using b(1) by (simp add: gather_array_def gather_def)
  have "ret ! 0 = 9" "ret ! 1 = 8" using a(4) by (simp_all add: fl32_numeral)
  moreover have "ret = [ret ! 0, ret ! 1]" using a(3) by (intro list2_nth) simp
  ultimately have ret: "ret = [9, 8]" by simp
  have "ret' ! 0 = [9, 9]" "ret' ! 1 = [3, 4]"
    using b(4) by (simp_all add: numeral_2_eq_2 fl32_numeral)
  moreover have "ret' = [ret' ! 0, ret' ! 1]" using b(3) by (intro list2_nth) simp
  ultimately have ret': "ret' = [[9, 9], [3, 4]]" by simp
  show ?thesis using a(1,2) b(1,2) unfolding g g' ret ret' by simp
qed

subsection \<open>Sampling\<close>

lemma np_where_iff: "i \<in> set (np_where P xs) \<longleftrightarrow> i < length xs \<and> P (xs ! i)"
  by (auto simp: np_where_def)

lemma np_where_sorted: "sorted_wrt (<) (np_where P xs)"
  by (simp add: np_where_def sorted_wrt_filter)

lemma gather_in_range:
  "\<forall>i \<in> set idx. i < length xs \<Longrightarrow> gather xs idx = Inr (map (\<lambda>i. xs ! i) idx)"
  by (auto simp: gather_def)

lemma map_nth_const:
  "\<forall>i \<in> set idx. xs ! i = v \<Longrightarrow> map (\<lambda>i. xs ! i) idx = replicate (length idx) v"
  by (induction idx) auto


lemma num_fg_fraction:
  assumes "0 \<le> nrois" and "nrois < 2 ^ 53" and "0 \<le> fg" and "fg \<le> 1"
  shows "num_fg fg nrois = Inr \<lfloor>fl64 (fg * real_of_int nrois)\<rfloor>"
    and "0 \<le> \<lfloor>fl64 (fg * real_of_int nrois)\<rfloor>"
    and "\<lfloor>fl64 (fg * real_of_int nrois)\<rfloor> \<le> nrois"
proof -
  have pf: "py_float nrois = Inr (real_of_int nrois)"
    using assms(1,2) by (intro py_float_exact) simp
  have prod0: "0 \<le> fg * real_of_int nrois" using assms(1,3) by simp
  have prodn: "fg * real_of_int nrois \<le> real_of_int nrois"
    using assms(1,4) mult_right_mono [of fg 1 "real_of_int nrois"] by simp
  have "real_of_int nrois < 2 ^ 53"
    using assms(2) of_int_less_iff [where ?'a = real, of nrois "2 ^ 53"] by simp
  then have "\<bar>fg * real_of_int nrois\<bar> < 2 ^ 53" using prod0 prodn by linarith
  then have fin: "\<not> max64 \<le> \<bar>fg * real_of_int nrois\<bar>"
    using max64_gt [of "\<bar>fg * real_of_int nrois\<bar>"] by simp
  have r0: "0 \<le> fl64 (fg * real_of_int nrois)"
    using prod0 by (simp add: fl64_def round_float_nonneg)
  have rn: "fl64 (fg * real_of_int nrois) \<le> real_of_int nrois"
    unfolding fl64_def using prodn prod0 assms(2) by (intro round_float_le_int) simp_all
  show "num_fg fg nrois = Inr \<lfloor>fl64 (fg * real_of_int nrois)\<rfloor>"
    using fin r0 by (simp add: num_fg_def pf py_int_def)
  show "0 \<le> \<lfloor>fl64 (fg * real_of_int nrois)\<rfloor>" using r0 by simp
  show "\<lfloor>fl64 (fg * real_of_int nrois)\<rfloor> \<le> nrois" using rn by (simp add: floor_le_iff)
qed


text \<open>The fraction \<open>0.58\<close> is the \<^verbatim>\<open>float64\<close> number \<open>5224175567749775 / 2 ^ 53\<close>, just
  below \<open>29 / 50\<close>; its product with \<open>50\<close> rounds to a number just below \<open>29\<close>, and the
  foreground count of a request of \<open>50\<close> anchors is \<open>28\<close>.\<close>

lemma fl64_29_50: "fl64 (29 / 50) = 5224175567749775 / 2 ^ 53"
  by (subst fl64_eval [where e = "- 1"]) (simp_all add: np_round_def Let_def)

lemma fl64_29: "fl64 (130604389193744375 / 4503599627370496) = 8162774324609023 / 2 ^ 48"
  by (subst fl64_eval [where e = 4]) (simp_all add: np_round_def Let_def)

lemma num_fg_58_50: "num_fg (5224175567749775 / 2 ^ 53) 50 = Inr 28"
  using num_fg_fraction(1) [of 50 "5224175567749775 / 2 ^ 53"] by (simp add: fl64_29)

text \<open>
  Claim C5. The product \<open>fg * n\<close> is the \<^verbatim>\<open>float64\<close> product of the program, \<open>fg\<close>
  being a \<^verbatim>\<open>float64\<close> number with \<open>0 \<le> fg \<le> 1\<close> and \<open>0 \<le> n < 2 ^ 53\<close>. For a labelled
  record whose foreground pool has at least \<open>floor(fg * n)\<close> members and whose background
  pool has at least \<open>n - floor(fg * n)\<close> members, deterministic sampling returns the first
  \<open>floor(fg * n)\<close> indices of the foreground pool followed by the first
  \<open>n - floor(fg * n)\<close> indices of the background pool, each in ascending order, with as
  many labels \<open>1\<close> and \<open>0\<close>; the result depends neither on the random source nor on its
  state, which is returned unchanged.
\<close>

theorem sample_anchors_deterministic:
  assumes n: "0 \<le> nrois" and nb: "nrois < 2 ^ 53"
    and fl: "fl64 fg = fg" and f0: "0 \<le> fg" and f1: "fg \<le> 1"
    and fgp: "\<lfloor>fl64 (fg * real_of_int nrois)\<rfloor>
                \<le> int (length (np_where (\<lambda>l. l = 1) (labels db)))"
    and bgp: "nrois - \<lfloor>fl64 (fg * real_of_int nrois)\<rfloor>
                \<le> int (length (np_where (\<lambda>l. l = 0) (labels db)))"
    and len: "length (bbox_targets db) = length (labels db)"
  shows "\<exists>fg_idx bg_idx.
           fg_idx = take (nat \<lfloor>fl64 (fg * real_of_int nrois)\<rfloor>)
                      (np_where (\<lambda>l. l = 1) (labels db)) \<and>
           bg_idx = take (nat (nrois - \<lfloor>fl64 (fg * real_of_int nrois)\<rfloor>))
                      (np_where (\<lambda>l. l = 0) (labels db)) \<and>
           length fg_idx = nat \<lfloor>fl64 (fg * real_of_int nrois)\<rfloor> \<and>
           length bg_idx = nat (nrois - \<lfloor>fl64 (fg * real_of_int nrois)\<rfloor>) \<and>
           sorted_wrt (<) fg_idx \<and> sorted_wrt (<) bg_idx \<and>
           sample_anchors choice s db nrois fg True =
             Inr ((replicate (length fg_idx) 1 @ replicate (length bg_idx) 0,
                   map (\<lambda>i. bbox_targets db ! i) (fg_idx @ bg_idx),
                   fg_idx @ bg_idx), s)"
proof -
  define k where "k = \<lfloor>fl64 (fg * real_of_int nrois)\<rfloor>"
  define fp where "fp = np_where (\<lambda>l. l = 1) (labels db)"
  define bp where "bp = np_where (\<lambda>l. l = 0) (labels db)"
  define fi where "fi = take (nat k) fp"
  define bi where "bi = take (nat (nrois - k)) bp"
  have pk: "num_fg fg nrois = Inr k" and k0: "0 \<le> k" and kn: "k \<le> nrois"
    unfolding k_def using num_fg_fraction [OF n nb f0 f1] by simp_all
  have kf: "k \<le> int (length fp)" using fgp by (simp add: k_def fp_def)
  have kb: "nrois - k \<le> int (length bp)" using bgp by (simp add: k_def bp_def)
  have lfi: "length fi = nat k" using kf k0 by (simp add: fi_def)
  have lbi: "length bi = nat (nrois - k)" using kb kn by (simp add: bi_def)
  have m1: "min k (int (length fp)) = k" using kf by simp
  have m2: "min (nrois - k) (int (length bp)) = nrois - k" using kb by simp
  have t1: "py_take k fp = fi" using k0 by (simp add: py_take_def fi_def)
  have t2: "py_take (nrois - k) bp = bi" using kn by (simp add: py_take_def bi_def)
  have lidx: "int (length (fi @ bi)) = nrois" using lfi lbi k0 kn by simp
  have fin: "\<forall>i \<in> set fi. i < length (labels db) \<and> labels db ! i = 1"
    using in_set_takeD [of _ "nat k" fp] by (auto simp: fi_def fp_def np_where_iff)
  have bin: "\<forall>i \<in> set bi. i < length (labels db) \<and> labels db ! i = 0"
    using in_set_takeD [of _ "nat (nrois - k)" bp] by (auto simp: bi_def bp_def np_where_iff)
  have gl: "gather (labels db) (fi @ bi) = Inr (replicate (length fi) 1 @ replicate (length bi) 0)"
  proof -
    have "gather (labels db) (fi @ bi) = Inr (map (\<lambda>i. labels db ! i) (fi @ bi))"
      using fin bin by (intro gather_in_range) auto
    moreover have "map (\<lambda>i. labels db ! i) fi = replicate (length fi) 1"
      using fin by (intro map_nth_const) auto
    moreover have "map (\<lambda>i. labels db ! i) bi = replicate (length bi) 0"
      using bin by (intro map_nth_const) auto
    ultimately show ?thesis by simp
  qed
  have gt: "gather (bbox_targets db) (fi @ bi) = Inr (map (\<lambda>i. bbox_targets db ! i) (fi @ bi))"
    using fin bin len by (intro gather_in_range) auto
  have run: "sample_anchors choice s db nrois fg True =
             Inr ((replicate (length fi) 1 @ replicate (length bi) 0,
                   map (\<lambda>i. bbox_targets db ! i) (fi @ bi), fi @ bi), s)"
    unfolding sample_anchors_def Let_def pk
    unfolding fp_def [symmetric] bp_def [symmetric] sum.case m1 m2
    using t1 t2 lidx gl gt by simp
  have s1: "sorted_wrt (<) fi" unfolding fi_def fp_def
    by (intro sorted_wrt_take np_where_sorted)
  have s2: "sorted_wrt (<) bi" unfolding bi_def bp_def
    by (intro sorted_wrt_take np_where_sorted)
  show ?thesis
    using run lfi lbi s1 s2 unfolding fi_def bi_def fp_def bp_def k_def by blast
qed

lemma db_pools_pools:
  "np_where (\<lambda>l. l = 1) (labels db_pools) = [1, 3, 6]"
  "np_where (\<lambda>l. l = 0) (labels db_pools) = [0, 4, 5]"
  by (simp_all add: np_where_def db_pools_def upt_rec)

theorem sample_anchors_deterministic_witness:
  "(0::int) \<le> 4 \<and> (4::int) < 2 ^ 53 \<and> fl64 (1 / 2) = 1 / 2 \<and> (0::real) \<le> 1 / 2 \<and> (1::real) / 2 \<le> 1 \<and>
   \<lfloor>fl64 (1 / 2 * real_of_int 4)\<rfloor> = 2 \<and>
   \<lfloor>fl64 (1 / 2 * real_of_int 4)\<rfloor> \<le> int (length (np_where (\<lambda>l. l = 1) (labels db_pools))) \<and>
   4 - \<lfloor>fl64 (1 / 2 * real_of_int 4)\<rfloor> \<le> int (length (np_where (\<lambda>l. l = 0) (labels db_pools))) \<and>
   length (bbox_targets db_pools) = length (labels db_pools) \<and>
   sample_anchors first_choice () db_pools 4 (1 / 2) True =
     Inr (([1, 1, 0, 0], [[1, 1, 1, 1], [3, 3, 3, 3], [0, 0, 0, 0], [4, 4, 4, 4]], [1, 3, 0, 4]), ())"
proof -
  have h1: "(0::int) \<le> 4" and h1': "(4::int) < 2 ^ 53"
    and h2: "(0::real) \<le> 1 / 2" and h3: "(1::real) / 2 \<le> 1" by simp_all
  have hf: "fl64 (1 / 2) = 1 / 2" by (rule fl64_half)
  have fl: "\<lfloor>fl64 (1 / 2 * real_of_int 4)\<rfloor> = 2" by (simp add: fl64_numeral)
  have h4: "\<lfloor>fl64 (1 / 2 * real_of_int 4)\<rfloor> \<le> int (length (np_where (\<lambda>l. l = 1) (labels db_pools)))"
    unfolding fl by (simp add: db_pools_pools)
  have h5: "4 - \<lfloor>fl64 (1 / 2 * real_of_int 4)\<rfloor> \<le> int (length (np_where (\<lambda>l. l = 0) (labels db_pools)))"
    unfolding fl by (simp add: db_pools_pools)
  have h6: "length (bbox_targets db_pools) = length (labels db_pools)"
    by (simp add: db_pools_def)
  from sample_anchors_deterministic [OF h1 h1' hf h2 h3 h4 h5 h6, of first_choice "()"]
  have "sample_anchors first_choice () db_pools 4 (1 / 2) True =
     Inr (([1, 1, 0, 0], [[1, 1, 1, 1], [3, 3, 3, 3], [0, 0, 0, 0], [4, 4, 4, 4]], [1, 3, 0, 4]), ())"
    unfolding fl by (simp add: db_pools_pools numeral_eq_Suc) (simp add: db_pools_def)
  with h1 h1' hf h2 h3 fl h4 h5 h6 show ?thesis by blast
qed




subsection \<open>Labelling\<close>

lemma collect_map_Inr_id: "collect (map Inr vs) = Inr vs"
  by (induction vs) simp_all

lemma collect_InrD: "collect xs = Inr vs \<Longrightarrow> xs = map Inr vs"
  by (induction xs arbitrary: vs) (auto split: sum.splits)

lemma collect_Inr_iff: "collect xs = Inr vs \<longleftrightarrow> xs = map Inr vs"
  using collect_InrD collect_map_Inr_id by blast

lemma collect_map_Inr: "\<forall>x \<in> set xs. f x = Inr (g x) \<Longrightarrow> collect (map f xs) = Inr (map g xs)"
  by (simp add: collect_Inr_iff)

lemma amax_Max: "xs \<noteq> [] \<Longrightarrow> amax xs = Inr (Max (set xs))"
proof (cases xs)
  case Nil
  assume "xs \<noteq> []"
  with Nil show ?thesis by simp
next
  case (Cons a list)
  show ?thesis unfolding Cons using Max.set_eq_fold [of a list] by simp
qed

lemma argmax_Inr: "xs \<noteq> [] \<Longrightarrow> argmax xs = Inr (length (takeWhile (\<lambda>x. x \<noteq> Max (set xs)) xs))"
  by (simp add: argmax_def amax_Max)

lemma calculate_bb_overlap_shape:
  assumes "calculate_bb_overlap rp gt = Inr ov"
  shows "length ov = length rp" and "\<forall>row \<in> set ov. length row = length gt"
proof -
  from assms have m: "map (\<lambda>r. collect (map (\<lambda>g. bb_overlap r g) gt)) rp = map Inr ov"
    by (simp add: calculate_bb_overlap_def collect_Inr_iff)
  then show l: "length ov = length rp" by (metis length_map)
  show "\<forall>row \<in> set ov. length row = length gt"
  proof
    fix row assume "row \<in> set ov"
    then obtain i where i: "i < length ov" "row = ov ! i" by (auto simp: in_set_conv_nth)
    from m i l have "collect (map (\<lambda>g. bb_overlap (rp ! i) g) gt) = Inr row"
      by (metis (no_types, lifting) length_map nth_map)
    then have "map (\<lambda>g. bb_overlap (rp ! i) g) gt = map Inr row" by (simp add: collect_Inr_iff)
    then show "length row = length gt" by (metis length_map)
  qed
qed

lemma max_axis1_Inr:
  assumes "0 < G" and "\<forall>row \<in> set m. length row = G"
  shows "max_axis1 G m = Inr (map (\<lambda>row. Max (set row)) m)"
proof -
  have "\<forall>row \<in> set m. amax row = Inr (Max (set row))"
    using assms by (auto intro!: amax_Max)
  then show ?thesis using assms(1) by (simp add: max_axis1_def collect_map_Inr)
qed

lemma argmax_axis1_Inr:
  assumes "0 < G" and "\<forall>row \<in> set m. length row = G"
  shows "argmax_axis1 G m = Inr (map (\<lambda>row. length (takeWhile (\<lambda>x. x \<noteq> Max (set row)) row)) m)"
proof -
  have "\<forall>row \<in> set m. argmax row = Inr (length (takeWhile (\<lambda>x. x \<noteq> Max (set row)) row))"
    using assms by (auto intro!: argmax_Inr)
  then show ?thesis using assms(1) by (simp add: argmax_axis1_def collect_map_Inr)
qed

lemma max_axis0_Inr:
  assumes "m \<noteq> []"
  shows "max_axis0 G m = Inr (map (\<lambda>g. Max (set (map (\<lambda>row. row ! g) m))) [0..<G])"
proof -
  have "amax (map (\<lambda>row. row ! g) m) = Inr (Max (set (map (\<lambda>row. row ! g) m)))" for g
    by (rule amax_Max) (use assms in simp)
  then have "\<forall>g \<in> set [0..<G]. amax (map (\<lambda>row. row ! g) m) = Inr (Max (set (map (\<lambda>row. row ! g) m)))"
    by blast
  then show ?thesis using assms by (simp add: max_axis0_def collect_map_Inr del: set_map)
qed

lemma set_np_where_rows: "set (np_where_rows msk) = {i. i < length msk \<and> True \<in> set (msk ! i)}"
  by (auto simp: np_where_rows_def)

lemma set_idx_length: "length (set_idx idx v xs) = length xs"
  unfolding set_idx_def by (induction idx arbitrary: xs) auto

lemma set_idx_nth:
  "i < length xs \<Longrightarrow> set_idx idx v xs ! i = (if i \<in> set idx then v else xs ! i)"
  unfolding set_idx_def by (induction idx arbitrary: xs) (auto simp: nth_list_update)

lemma set_mask_length: "length msk = length xs \<Longrightarrow> length (set_mask msk v xs) = length xs"
  by (simp add: set_mask_def)

lemma set_mask_nth:
  "length msk = length xs \<Longrightarrow> i < length xs \<Longrightarrow>
   set_mask msk v xs ! i = (if msk ! i then v else xs ! i)"
  by (simp add: set_mask_def)

lemma col_max_eq:
  assumes "i < length ov"
  shows "ov ! i ! g = Max (set (map (\<lambda>row. row ! g) ov)) \<longleftrightarrow> col_best ov g i"
proof -
  let ?S = "set (map (\<lambda>row. row ! g) ov)"
  have fin: "finite ?S" by simp
  have mem: "ov ! i ! g \<in> ?S" using nth_mem [OF assms] by auto
  have S: "\<exists>j < length ov. y = ov ! j ! g" if "y \<in> ?S" for y
    using that by (auto simp: in_set_conv_nth)
  show ?thesis
  proof
    assume e: "ov ! i ! g = Max ?S"
    show "col_best ov g i" unfolding col_best_def
    proof (intro allI impI)
      fix j assume "j < length ov"
      from nth_mem [OF this] have "ov ! j ! g \<in> ?S" by auto
      then have "ov ! j ! g \<le> Max ?S" using fin by (rule Max_ge [rotated])
      with e show "ov ! j ! g \<le> ov ! i ! g" by simp
    qed
  next
    assume c: "col_best ov g i"
    have "Max ?S = ov ! i ! g"
    proof (rule Max_eqI [OF fin _ mem])
      fix y assume "y \<in> ?S"
      from S [OF this] obtain j where "j < length ov" "y = ov ! j ! g" by blast
      with c show "y \<le> ov ! i ! g" by (simp add: col_best_def)
    qed
    then show "ov ! i ! g = Max ?S" by simp
  qed
qed

lemma anchor_labels_char:
  assumes ne: "ov \<noteq> []" and G: "0 < G" and rows: "\<forall>row \<in> set ov. length row = G"
  shows "\<exists>lbls. anchor_labels self G ov = Inr lbls \<and> length lbls = length ov \<and>
           (\<forall>i < length ov. lbls ! i =
              (if POSITIVE_OVERLAP self \<le> Max (set (ov ! i)) \<or> (\<exists>g < G. col_best ov g i) then 1
               else if Max (set (ov ! i)) < NEGATIVE_OVERLAP self then 0 else - 1))"
proof -
  define rm where "rm = map (\<lambda>row. Max (set row)) ov"
  define cm where "cm = map (\<lambda>g. Max (set (map (\<lambda>row. row ! g) ov))) [0..<G]"
  define msk where "msk = map (\<lambda>row. map (\<lambda>(v, m). v = m) (zip row cm)) ov"
  define l1 where "l1 = set_mask (map (\<lambda>m. m < NEGATIVE_OVERLAP self) rm) 0 (replicate (length ov) (- 1 :: real))"
  define l2 where "l2 = set_idx (np_where_rows msk) 1 l1"
  define l3 where "l3 = set_mask (map (\<lambda>m. POSITIVE_OVERLAP self \<le> m) rm) 1 l2"
  have run: "anchor_labels self G ov = Inr l3"
    unfolding anchor_labels_def Let_def max_axis1_Inr [OF G rows] max_axis0_Inr [OF ne]
    by (simp add: l3_def l2_def l1_def msk_def cm_def rm_def del: set_map)
  have len1: "length l1 = length ov" by (simp add: l1_def rm_def set_mask_def)
  have len2: "length l2 = length ov" by (simp add: l2_def set_idx_length len1)
  have len3: "length l3 = length ov" by (simp add: l3_def set_mask_def len2 rm_def)
  have lcm: "length cm = G" by (simp add: cm_def)
  have best: "(i \<in> set (np_where_rows msk)) = (\<exists>g < G. col_best ov g i)" if i: "i < length ov" for i
  proof -
    have li: "length (ov ! i) = G" using rows i by simp
    have "(True \<in> set (msk ! i)) = (\<exists>g < G. ov ! i ! g = cm ! g)"
      using i li lcm by (auto simp: msk_def set_zip)
    also have "\<dots> = (\<exists>g < G. col_best ov g i)"
      using col_max_eq [OF i] by (auto simp: cm_def simp del: set_map)
    finally show ?thesis using i by (simp add: set_np_where_rows msk_def)
  qed
  have val: "l3 ! i =
              (if POSITIVE_OVERLAP self \<le> Max (set (ov ! i)) \<or> (\<exists>g < G. col_best ov g i) then 1
               else if Max (set (ov ! i)) < NEGATIVE_OVERLAP self then 0 else - 1)"
    if i: "i < length ov" for i
  proof -
    have a: "l1 ! i = (if Max (set (ov ! i)) < NEGATIVE_OVERLAP self then 0 else - 1)"
      using i by (simp add: l1_def set_mask_nth rm_def)
    have b: "l2 ! i = (if \<exists>g < G. col_best ov g i then 1 else l1 ! i)"
      using i len1 best [OF i] by (simp add: l2_def set_idx_nth)
    have c: "l3 ! i = (if POSITIVE_OVERLAP self \<le> Max (set (ov ! i)) then 1 else l2 ! i)"
      using i len2 by (simp add: l3_def set_mask_nth rm_def)
    show ?thesis using a b c by simp
  qed
  show ?thesis using run len3 val by blast
qed

text \<open>The overlaps of valid boxes are computed without error, and scaling by a scale that
  is not negative keeps a box valid.\<close>

lemma valid_scale_box: "0 \<le> s \<Longrightarrow> valid_box b \<Longrightarrow> valid_box (scale_box s b)"
  by (simp add: valid_box_def scale_box_def mult_right_mono)

lemma calculate_bb_overlap_valid:
  assumes "\<forall>a \<in> set rp. valid_box a" and "\<forall>b \<in> set gt. valid_box b"
  shows "\<exists>ov. calculate_bb_overlap rp gt = Inr ov"
proof -
  have e: "bb_overlap a b = Inr (projr (bb_overlap a b))" if "a \<in> set rp" "b \<in> set gt" for a b
    using bb_overlap_bounds [of a b] assms that by auto
  have "collect (map (\<lambda>g. bb_overlap a g) gt) = Inr (map (\<lambda>g. projr (bb_overlap a g)) gt)"
    if "a \<in> set rp" for a
    using e [OF that] by (intro collect_map_Inr) simp
  then have "calculate_bb_overlap rp gt =
             Inr (map (\<lambda>a. map (\<lambda>g. projr (bb_overlap a g)) gt) rp)"
    unfolding calculate_bb_overlap_def by (intro collect_map_Inr) simp
  then show ?thesis by blast
qed

lemma add_anchors_db_run:
  assumes css: "calculate_scale_shape self (img_shape db) = Inr (sc, sh)"
    and gt: "gt_bb db \<noteq> []"
    and ov: "calculate_bb_overlap (map (\<lambda>i. all_anchors ! i) (inside_im_bounds all_anchors sh))
               (map (scale_box sc) (gt_bb db)) = Inr ov"
    and lb: "anchor_labels self (length (gt_bb db)) ov = Inr lbls"
  shows "\<exists>out. add_anchors_db self all_anchors db = Inr out \<and> labels out = lbls \<and>
           idx_inside out = inside_im_bounds all_anchors sh"
proof -
  have G: "0 < length (gt_bb db)" using gt by simp
  have rows: "\<forall>row \<in> set ov. length row = length (gt_bb db)"
    using calculate_bb_overlap_shape(2) [OF ov] by simp
  show ?thesis
    unfolding add_anchors_db_def css
    using ov lb argmax_axis1_Inr [OF G rows] by (simp add: Let_def)
qed

lemma inside_anchor16: "inside_im_bounds [anchor16] (800, 600) = [0]"
  by (simp add: inside_im_bounds_def np_where_def anchor16_def)


lemma scale_box_one: "scale_box 1 b = b"
  by (simp add: scale_box_def)

lemma overlap_anchor16_self: "calculate_bb_overlap [anchor16] [anchor16] = Inr [[1]]"
  by (simp add: calculate_bb_overlap_def bb_overlap_def anchor16_def Let_def)

lemma overlap_anchor16_two: "calculate_bb_overlap [anchor16] [anchor16, box8] = Inr [[1, 1 / 4]]"
  by (simp add: calculate_bb_overlap_def bb_overlap_def anchor16_def box8_def Let_def)


lemma targets_anchor16: "compute_targets [anchor16] [anchor16] = [[0, 0, 0, 0]]"
  by (simp add: compute_targets_def compute_target_def get_xywh_def anchor16_def FRCN_EPS_def Let_def)

text \<open>
  Claim C1 does not hold of the code: for a record without ground truth box and an anchor
  inside the image, the overlap matrix has no column, \<^verbatim>\<open>overlaps.max(axis=1)\<close> raises
  \<^verbatim>\<open>ValueError\<close>, and \<^verbatim>\<open>add_anchors\<close> ends with it instead of labelling the
  anchor as background.
\<close>

theorem add_anchors_empty_gt_raises:
  "add_anchors (ObjectLocalization 1) [anchor16] [db_empty] = Inl ValueError"
  by (simp add: add_anchors_def add_anchors_db_def scale_shape_800_600 db_empty_def inside_anchor16
      calculate_bb_overlap_def anchor_labels_def max_axis1_def ObjectLocalization_fields)

text \<open>
  Claim C3 does not hold of the code: \<^verbatim>\<open>add_anchors\<close> stores under
  \<^verbatim>\<open>max_classes\<close> the index \<^verbatim>\<open>overlaps.argmax(axis=1)\<close> of the ground truth box,
  here \<open>0\<close>, and not its class, here \<open>5\<close>.
\<close>

theorem add_anchors_stores_argmax_index:
  "add_anchors (ObjectLocalization 1) [anchor16] [db_one] = Inr [out_one] \<and>
   max_classes out_one = [0] \<and> a_gt_classes out_one = [5]"
  by (simp add: add_anchors_def add_anchors_db_def scale_shape_800_600 db_one_def out_one_def inside_anchor16
      scale_box_one overlap_anchor16_self anchor_labels_def max_axis1_def max_axis0_def
      argmax_axis1_def argmax_def np_where_rows_def set_mask_def set_idx_def
      ObjectLocalization_fields targets_anchor16 Let_def)



lemma add_anchors_db_two: "add_anchors_db (ObjectLocalization 1) [anchor16] db_two = Inr out_two"
  by (simp add: add_anchors_db_def scale_shape_800_600 db_two_def out_two_def inside_anchor16
      scale_box_one overlap_anchor16_two anchor_labels_def max_axis1_def max_axis0_def
      argmax_axis1_def argmax_def np_where_rows_def set_mask_def set_idx_def
      ObjectLocalization_fields targets_anchor16 Let_def)

text \<open>
  Claim C4 fails on the code: with one anchor and two ground truth boxes, the anchor holds
  the maximum of both columns and is labelled foreground, but it is the row-wise argmax
  of the first box only, so the second box is the argmax of no anchor.
\<close>

theorem add_anchors_gt_argmax_counterexample:
  "add_anchors_db (ObjectLocalization 1) [anchor16] db_two = Inr out_two \<and>
   \<not> gt_argmax_of_foreground out_two"
proof -
  have "\<not> gt_argmax_of_foreground out_two"
    unfolding gt_argmax_of_foreground_def
    by (simp add: out_two_def) (metis less_Suc_eq lessI zero_neq_one)
  then show ?thesis using add_anchors_db_two by simp
qed

text \<open>
  Claim C4 as amended. For an image with at least one ground truth box and at least one
  anchor inside the image, on which the scale and the overlaps are computed without
  error, \<^verbatim>\<open>add_anchors\<close> labels the record, and every ground truth box \<open>g\<close> has an
  anchor labelled foreground whose overlap with \<open>g\<close> is the maximum of column \<open>g\<close>.
\<close>

theorem add_anchors_gt_has_foreground:
  assumes css: "calculate_scale_shape self (img_shape db) = Inr (sc, sh)"
    and ne: "inside_im_bounds all_anchors sh \<noteq> []"
    and gt: "gt_bb db \<noteq> []"
    and ov: "calculate_bb_overlap (map (\<lambda>i. all_anchors ! i) (inside_im_bounds all_anchors sh))
               (map (scale_box sc) (gt_bb db)) = Inr ov"
  shows "\<exists>out. add_anchors_db self all_anchors db = Inr out \<and>
           length (labels out) = length ov \<and>
           (\<forall>g < length (gt_bb db). \<exists>i < length ov.
              labels out ! i = 1 \<and> (\<forall>j < length ov. ov ! j ! g \<le> ov ! i ! g))"
proof -
  have len: "length ov = length (inside_im_bounds all_anchors sh)"
    using calculate_bb_overlap_shape(1) [OF ov] by simp
  have one: "ov \<noteq> []" using len ne by auto
  have rows: "\<forall>row \<in> set ov. length row = length (gt_bb db)"
    using calculate_bb_overlap_shape(2) [OF ov] by simp
  have G: "0 < length (gt_bb db)" using gt by simp
  from anchor_labels_char [OF one G rows, of self] obtain lbls where
    l: "anchor_labels self (length (gt_bb db)) ov = Inr lbls" "length lbls = length ov"
    and v: "\<forall>i < length ov. lbls ! i =
              (if POSITIVE_OVERLAP self \<le> Max (set (ov ! i)) \<or>
                  (\<exists>g < length (gt_bb db). col_best ov g i) then 1
               else if Max (set (ov ! i)) < NEGATIVE_OVERLAP self then 0 else - 1)"
    by blast
  have best: "\<exists>i < length ov. lbls ! i = 1 \<and> (\<forall>j < length ov. ov ! j ! g \<le> ov ! i ! g)"
    if g: "g < length (gt_bb db)" for g
  proof -
    let ?S = "set (map (\<lambda>row. row ! g) ov)"
    have "Max ?S \<in> ?S" using one by (intro Max_in) auto
    then obtain i where i: "i < length ov" "ov ! i ! g = Max ?S"
      by (auto simp: in_set_conv_nth)
    from col_max_eq [OF i(1), of g] i(2) have c: "col_best ov g i" by simp
    with v i(1) g have "lbls ! i = 1" by auto
    with c i(1) show ?thesis unfolding col_best_def by blast
  qed
  from add_anchors_db_run [OF css gt ov l(1)] l(2) best show ?thesis by auto
qed

theorem add_anchors_gt_has_foreground_witness:
  "\<exists>out. add_anchors_db (ObjectLocalization 1) [anchor16] db_two = Inr out \<and>
      length (labels out) = 1 \<and> labels out ! 0 = 1"
proof -
  have h1: "calculate_scale_shape (ObjectLocalization 1) (img_shape db_two) = Inr (1, (800, 600))"
    by (simp add: db_two_def scale_shape_800_600)
  have h2: "inside_im_bounds [anchor16] (800, 600) \<noteq> []"
    by (simp add: inside_anchor16)
  have h3: "gt_bb db_two \<noteq> []" by (simp add: db_two_def)
  have h4: "calculate_bb_overlap
     (map (\<lambda>i. [anchor16] ! i) (inside_im_bounds [anchor16] (800, 600)))
     (map (scale_box 1) (gt_bb db_two)) = Inr [[1, 1 / 4]]"
    by (simp add: inside_anchor16 db_two_def scale_box_one overlap_anchor16_two)
  from add_anchors_gt_has_foreground [OF h1 h2 h3 h4] obtain out where
    o: "add_anchors_db (ObjectLocalization 1) [anchor16] db_two = Inr out"
       "length (labels out) = length [[1, 1 / 4 :: real]]"
       "\<forall>g < length (gt_bb db_two). \<exists>i < length [[1, 1 / 4 :: real]].
          labels out ! i = 1 \<and>
          (\<forall>j < length [[1, 1 / 4 :: real]]. [[1, 1 / 4 :: real]] ! j ! g \<le> [[1, 1 / 4]] ! i ! g)"
    by blast
  from o(3) h3 have "\<exists>i < length [[1, 1 / 4 :: real]]. labels out ! i = 1" by fastforce
  then have "labels out ! 0 = 1" by simp
  with o(1,2) show ?thesis by simp
qed

subsection \<open>Shuffling\<close>

lemma reshape2_odd: "odd (length xs) \<Longrightarrow> reshape2 xs = Inl ValueError"
  by (induction xs rule: reshape2.induct) auto

lemma reshape2_even:
  "even (length xs) \<Longrightarrow> \<exists>rows. reshape2 xs = Inr rows \<and> concat rows = xs"
  by (induction xs rule: reshape2.induct) auto

lemma np_where_partition:
  assumes "length ys = length xs" and "\<forall>i < length xs. ys ! i = (\<not> xs ! i)"
  shows "mset (np_where (\<lambda>b. b) xs) + mset (np_where (\<lambda>b. b) ys) = mset [0..<length xs]"
proof -
  have "filter (\<lambda>i. ys ! i) [0..<length xs] = filter (\<lambda>i. \<not> xs ! i) [0..<length xs]"
    using assms(2) by (intro filter_cong) auto
  then show ?thesis
    unfolding np_where_def assms(1) by (simp del: mset_upt)
qed

lemma mset_concat_image: "mset (concat zs) = sum_mset (image_mset mset (mset zs))"
  by (induction zs) auto

lemma mset_concat_cong: "mset xs = mset ys \<Longrightarrow> mset (concat xs) = mset (concat ys)"
  by (simp add: mset_concat_image)

lemma mset_gather_rows:
  assumes "mset p = mset [0..<length rows]"
  shows "gather rows p = Inr (map (\<lambda>i. rows ! i) p)"
    and "mset (concat (map (\<lambda>i. rows ! i) p)) = mset (concat rows)"
proof -
  have "set p = set [0..<length rows]" using assms by (metis set_mset_mset)
  then show "gather rows p = Inr (map (\<lambda>i. rows ! i) p)"
    by (auto simp: gather_def)
  have "mset (map (\<lambda>i. rows ! i) p) = mset (map (\<lambda>i. rows ! i) [0..<length rows])"
    using assms by (metis mset_map)
  then have "mset (map (\<lambda>i. rows ! i) p) = mset rows" by (simp add: map_nth)
  then show "mset (concat (map (\<lambda>i. rows ! i) p)) = mset (concat rows)"
    by (rule mset_concat_cong)
qed


text \<open>
  Claim C10. For a random source whose \<^verbatim>\<open>permutation\<close> returns a permutation of its
  argument, \<^verbatim>\<open>_shuffle_roidb\<close> raises the \<^verbatim>\<open>ValueError\<close> of the reshape into rows
  of two for every collection of an odd number of records, and returns a permutation of
  the record indices for every collection of an even number of records.
\<close>

theorem shuffle_roidb_parity:
  assumes perm: "\<forall>s xs. mset (fst (permutation s xs)) = mset xs"
  shows "(odd (length roi_db) \<longrightarrow> shuffle_roidb permutation s roi_db = Inl ValueError) \<and>
         (even (length roi_db) \<longrightarrow>
            (\<exists>inds s'. shuffle_roidb permutation s roi_db = Inr (inds, s') \<and>
               mset inds = mset [0..<length roi_db]))"
proof -
  define horz where "horz = map (\<lambda>(w, h). w \<ge> h) (zip (map im_width roi_db) (map im_height roi_db))"
  define vert where "vert = map (\<lambda>b. \<not> b) horz"
  define hi where "hi = np_where (\<lambda>b. b) horz"
  define vi where "vi = np_where (\<lambda>b. b) vert"
  obtain ph s1 where p1: "permutation s hi = (ph, s1)" by (cases "permutation s hi")
  obtain pv s2 where p2: "permutation s1 vi = (pv, s2)" by (cases "permutation s1 vi")
  have lh: "length horz = length roi_db" by (simp add: horz_def)
  have part: "mset hi + mset vi = mset [0..<length roi_db]"
    using np_where_partition [of vert horz] by (simp add: hi_def vi_def vert_def lh)
  have mh: "mset ph = mset hi" using perm [rule_format, of s hi] p1 by simp
  have mv: "mset pv = mset vi" using perm [rule_format, of s1 vi] p2 by simp
  have mall: "mset (ph @ pv) = mset [0..<length roi_db]" using mh mv part by simp
  have "length (ph @ pv) = length [0..<length roi_db]" using mall by (rule mset_eq_length)
  then have len: "length (ph @ pv) = length roi_db" by simp
  have unfold: "shuffle_roidb permutation s roi_db =
      (case reshape2 (ph @ pv) of
         Inl e \<Rightarrow> Inl e
       | Inr inds \<Rightarrow>
           (case permutation s2 [0..<length inds] of (row_perm, s3) \<Rightarrow>
              (case gather inds row_perm of
                 Inl e \<Rightarrow> Inl e
               | Inr rows \<Rightarrow> Inr (concat rows, s3))))"
    unfolding shuffle_roidb_def Let_def
    unfolding horz_def [symmetric] vert_def [symmetric]
    unfolding hi_def [symmetric] vi_def [symmetric]
    by (simp add: p1 p2)
  show ?thesis
  proof (rule conjI; rule impI)
    assume "odd (length roi_db)"
    then have "reshape2 (ph @ pv) = Inl ValueError" using len by (intro reshape2_odd) simp
    then show "shuffle_roidb permutation s roi_db = Inl ValueError" by (simp add: unfold)
  next
    assume "even (length roi_db)"
    then have "even (length (ph @ pv))" using len by simp
    from reshape2_even [OF this] obtain rows where
      r: "reshape2 (ph @ pv) = Inr rows" "concat rows = ph @ pv" by blast
    obtain rp s3 where p3: "permutation s2 [0..<length rows] = (rp, s3)"
      by (cases "permutation s2 [0..<length rows]")
    have mr: "mset rp = mset [0..<length rows]"
      using perm [rule_format, of s2 "[0..<length rows]"] p3 by simp
    from mset_gather_rows [OF mr] r(2) mall
    have "gather rows rp = Inr (map (\<lambda>i. rows ! i) rp)"
      and "mset (concat (map (\<lambda>i. rows ! i) rp)) = mset [0..<length roi_db]" by simp_all
    then show "\<exists>inds s'. shuffle_roidb permutation s roi_db = Inr (inds, s') \<and>
               mset inds = mset [0..<length roi_db]"
      by (simp add: unfold r(1) p3)
  qed
qed


theorem shuffle_roidb_parity_witness:
  "(\<forall>s xs. mset (fst (rev_permutation s xs)) = mset xs) \<and>
   odd (length [db_short, db_pools, db_short]) \<and>
   shuffle_roidb rev_permutation () [db_short, db_pools, db_short] = Inl ValueError \<and>
   even (length [db_short, db_pools]) \<and>
   (\<exists>inds s'. shuffle_roidb rev_permutation () [db_short, db_pools] = Inr (inds, s') \<and>
      mset inds = mset [0..<length [db_short, db_pools]])"
proof -
  have h: "\<forall>s xs. mset (fst (rev_permutation s xs)) = mset xs"
    by (simp add: rev_permutation_def)
  have o: "odd (length [db_short, db_pools, db_short])" by simp
  have e: "even (length [db_short, db_pools])" by simp
  from shuffle_roidb_parity [OF h, of "[db_short, db_pools, db_short]" "()"] o
  have a: "shuffle_roidb rev_permutation () [db_short, db_pools, db_short] = Inl ValueError"
    by blast
  from shuffle_roidb_parity [OF h, of "[db_short, db_pools]" "()"] e
  have b: "\<exists>inds s'. shuffle_roidb rev_permutation () [db_short, db_pools] = Inr (inds, s') \<and>
      mset inds = mset [0..<length [db_short, db_pools]]"
    by blast
  from h o e a b show ?thesis by blast
qed



end
